theory Spec2Isabelle
  imports Complex_Main "HOL-Library.AList" "HOL-Library.Log_Nat"
begin

text \<open>
  The metrics of SimpleRelic and its reporter.  The source of the metrics comes in two
  revisions; the model follows the later one, whose metrics retain snapshots and whose
  \<^verbatim>\<open>AppMetric\<close> interface has \<^verbatim>\<open>Clear\<close>.
\<close>

section \<open>Values, parameter bags and Go maps\<close>

text \<open>
  The request attributes travel in a \<^verbatim>\<open>map[string]interface{}\<close>.  The metrics only ever
  look keys up in it and assert the dynamic type of what they find, so the bag is a partial
  function into a datatype of the dynamic types that occur: strings, ints,
  \<^verbatim>\<open>time.Time\<close> (nanoseconds on the clock) and anything else.

  Go's \<^verbatim>\<open>int\<close> is 64 bits wide.  Every counter below grows by one per call of Update, so the
  wrap-around at \<open>2^63\<close> is out of reach and \<open>int\<close> stands for it.
\<close>

datatype val = VString string | VInt int | VTime int | VOther

type_synonym params = "string \<Rightarrow> val option"

datatype error =
    Error string              \<comment> \<open>a value returned through the \<^verbatim>\<open>error\<close> result\<close>
  | PanicInterfaceConversion  \<comment> \<open>a failed single-value type assertion\<close>

section \<open>float32\<close>

text \<open>
  The exports are \<^verbatim>\<open>map[string]float32\<close>.  A \<^verbatim>\<open>float32\<close> value is the rational it denotes;
  every conversion to \<^verbatim>\<open>float32\<close> and every \<^verbatim>\<open>float32\<close> addition and division rounds its
  exact result to the nearest number with a significand of 24 bits, a tie going to the even
  significand.  The range of the exponent is not modelled: the counts, sums and quotients
  of the metrics are zero or lie between \<open>2^-126\<close> and \<open>2^127\<close> in magnitude, where
  \<^verbatim>\<open>float32\<close> neither overflows nor loses bits of the significand.  \<open>ilog2 x\<close> is the
  exponent of a positive \<open>x\<close>: the largest \<open>e\<close> with \<open>2^e \<le> x\<close>.
\<close>

definition round_half_even :: "rat \<Rightarrow> int" where
  "round_half_even x =
     (let f = \<lfloor>x\<rfloor>; r = x - of_int f
      in if r < 1 / 2 then f
         else if 1 / 2 < r then f + 1
         else if even f then f else f + 1)"

definition ilog2 :: "rat \<Rightarrow> int" where
  "ilog2 x =
     (let (a, b) = quotient_of x; d = bitlen a - bitlen b
      in if x < 2 powi d then d - 1 else d)"

definition float32 :: "rat \<Rightarrow> rat" where
  "float32 x =
     (if x = 0 then 0
      else (let ulp = 2 powi (ilog2 \<bar>x\<bar> - 23)
            in of_int (round_half_even (x / ulp)) * ulp))"

text \<open>
  A Go map that the code ranges over is an association list with one entry per key.  Reading
  a missing key gives the zero value; writing replaces the entry or adds one.  Go leaves the
  order of \<^verbatim>\<open>range\<close> open; the model visits the entries in the order of the list.  What
  the loops below compute (sums, and writes to one key per entry) does not depend on that
  order, and the properties read a map through \<open>map_of\<close> and \<open>map_get\<close>, not through the
  order of its entries.
\<close>

type_synonym 'v gomap = "(string \<times> 'v) list"

definition map_keys :: "'v gomap \<Rightarrow> string list" where
  "map_keys m = map fst m"

definition map_get :: "'v::zero gomap \<Rightarrow> string \<Rightarrow> 'v" where
  "map_get m k = (case map_of m k of None \<Rightarrow> 0 | Some v \<Rightarrow> v)"

definition slice_get :: "'a list gomap \<Rightarrow> string \<Rightarrow> 'a list" where
  "slice_get m k = (case map_of m k of None \<Rightarrow> [] | Some v \<Rightarrow> v)"

definition map_put :: "'v gomap \<Rightarrow> string \<Rightarrow> 'v \<Rightarrow> 'v gomap" where
  "map_put m k v = AList.update k v m"

definition map_add_to :: "'v::{zero,plus} gomap \<Rightarrow> string \<Rightarrow> 'v \<Rightarrow> 'v gomap" where
  "map_add_to m k v = map_put m k (map_get m k + v)"

text \<open>
  Maps are references.  The request-count and the error-rate metric copy the reference of
  their live map into a snapshot, so their maps live in a store: a list of maps, an address
  being an index.  \<^verbatim>\<open>make(map[string]int)\<close> appends an empty map and returns its index.
\<close>

type_synonym addr = nat
type_synonym store = "int gomap list"

definition make_map :: "store \<Rightarrow> store \<times> addr" where
  "make_map h = (h @ [[]], length h)"

definition store_get :: "store \<Rightarrow> addr \<Rightarrow> string \<Rightarrow> int" where
  "store_get h a k = map_get (h ! a) k"

definition store_put :: "store \<Rightarrow> addr \<Rightarrow> string \<Rightarrow> int \<Rightarrow> store" where
  "store_put h a k v = h[a := map_put (h ! a) k v]"

definition store_incr :: "store \<Rightarrow> addr \<Rightarrow> string \<Rightarrow> store" where
  "store_incr h a k = store_put h a k (store_get h a k + 1)"

section \<open>MetricBase\<close>

definition unknownEndpoint :: string where
  "unknownEndpoint = ''other''"

text \<open>
  The field \<^verbatim>\<open>endpoints\<close> is a map whose keys alone are used (the constructors range over
  it); no constructor ever fills it.  The lock is not modelled: the model runs one call at a
  time.
\<close>

record MetricBase =
  endpoints :: "string list"
  namePrefix :: string
  namePrefixOverall :: string
  metricUnit :: string

definition endpointName :: "params \<Rightarrow> error + string" where
  "endpointName ps =
     (case ps ''endpointName'' of
        None \<Rightarrow> Inr unknownEndpoint
      | Some (VString s) \<Rightarrow> Inr s
      | Some _ \<Rightarrow> Inl PanicInterfaceConversion)"

definition metricName :: "'a MetricBase_scheme \<Rightarrow> string \<Rightarrow> string" where
  "metricName m endpoint = namePrefix m @ endpoint @ metricUnit m"

definition overallName :: "'a MetricBase_scheme \<Rightarrow> string" where
  "overallName m = namePrefixOverall m @ metricUnit m"

section \<open>Requests per endpoint\<close>

record ReqPerEndpointSnapshot =
  rqs_numReq :: addr

record ReqPerEndpoint = MetricBase +
  rq_heap :: store
  rq_numReq :: addr
  rq_snapshots :: "ReqPerEndpointSnapshot list"

definition NewReqPerEndpoint :: ReqPerEndpoint where
  "NewReqPerEndpoint =
     (let (h, a) = make_map [];
          metric = \<lparr> endpoints = [],
                     namePrefix = ''Component/ReqPerEndpoint/'',
                     namePrefixOverall = ''Component/Req/overall'',
                     metricUnit = ''[requests]'',
                     rq_heap = h, rq_numReq = a, rq_snapshots = [] \<rparr>;
          h1 = foldl (\<lambda>h endpoint. store_put h a endpoint 0) h (endpoints metric);
          h2 = store_put h1 a unknownEndpoint 0
      in metric \<lparr> rq_heap := h2 \<rparr>)"

definition ReqPerEndpoint_Update :: "ReqPerEndpoint \<Rightarrow> params \<Rightarrow> error + ReqPerEndpoint" where
  "ReqPerEndpoint_Update m ps =
     (case endpointName ps of
        Inl e \<Rightarrow> Inl e
      | Inr endpoint \<Rightarrow> Inr (m \<lparr> rq_heap := store_incr (rq_heap m) (rq_numReq m) endpoint \<rparr>))"

definition ReqPerEndpoint_doSnapshot :: "ReqPerEndpoint \<Rightarrow> ReqPerEndpoint" where
  "ReqPerEndpoint_doSnapshot m =
     (let snaps = rq_snapshots m @ [\<lparr> rqs_numReq = rq_numReq m \<rparr>];
          (h, a) = make_map (rq_heap m)
      in m \<lparr> rq_heap := h, rq_numReq := a, rq_snapshots := snaps \<rparr>)"

text \<open>The inner loop of ValueMap: one snapshot's entries go into the sums.\<close>

definition req_add_snapshot ::
  "ReqPerEndpoint \<Rightarrow> rat gomap \<times> int \<Rightarrow> ReqPerEndpointSnapshot \<Rightarrow> rat gomap \<times> int" where
  "req_add_snapshot m acc snapshot =
     foldl (\<lambda>(reqCount, numReqAllEndpoints) (endpoint, v).
              (map_put reqCount (metricName m endpoint)
                 (float32 (map_get reqCount (metricName m endpoint) + float32 (of_int v))),
               numReqAllEndpoints + v))
           acc (rq_heap m ! rqs_numReq snapshot)"

definition ReqPerEndpoint_ValueMap :: "ReqPerEndpoint \<Rightarrow> ReqPerEndpoint \<times> rat gomap" where
  "ReqPerEndpoint_ValueMap m0 =
     (let m = ReqPerEndpoint_doSnapshot m0;
          (reqCount, numReqAllEndpoints) = foldl (req_add_snapshot m) ([], 0) (rq_snapshots m);
          (h, a) = make_map (rq_heap m)
      in (m \<lparr> rq_heap := h, rq_numReq := a \<rparr>,
          map_put reqCount (overallName m) (float32 (of_int numReqAllEndpoints))))"

definition ReqPerEndpoint_Clear :: "ReqPerEndpoint \<Rightarrow> ReqPerEndpoint" where
  "ReqPerEndpoint_Clear m = m \<lparr> rq_snapshots := [] \<rparr>"

section \<open>Error rate per endpoint\<close>

record ErrorRatePerEndpointSnapshot =
  ers_numReq :: addr
  ers_errorCount :: addr

record ErrorRatePerEndpoint = MetricBase +
  er_heap :: store
  er_numReq :: addr
  er_errorCount :: addr
  er_snapshots :: "ErrorRatePerEndpointSnapshot list"

text \<open>\<^verbatim>\<open>init\<close> writes zeros into the maps the metric holds; it makes no new map.\<close>

definition ErrorRatePerEndpoint_init :: "ErrorRatePerEndpoint \<Rightarrow> ErrorRatePerEndpoint" where
  "ErrorRatePerEndpoint_init m =
     (let h1 = foldl (\<lambda>h endpoint. store_put (store_put h (er_numReq m) endpoint 0)
                                              (er_errorCount m) endpoint 0)
                     (er_heap m) (endpoints m);
          h2 = store_put h1 (er_numReq m) unknownEndpoint 0;
          h3 = store_put h2 (er_errorCount m) unknownEndpoint 0
      in m \<lparr> er_heap := h3 \<rparr>)"

definition NewErrorRatePerEndpoint :: ErrorRatePerEndpoint where
  "NewErrorRatePerEndpoint =
     (let (h1, a1) = make_map [];
          (h2, a2) = make_map h1
      in ErrorRatePerEndpoint_init
           \<lparr> endpoints = [],
             namePrefix = ''Component/ErrorRatePerEndpoint/'',
             namePrefixOverall = ''Component/ErrorRate/overall'',
             metricUnit = ''[percent]'',
             er_heap = h2, er_numReq = a1, er_errorCount = a2, er_snapshots = [] \<rparr>)"

definition ErrorRatePerEndpoint_Update ::
  "ErrorRatePerEndpoint \<Rightarrow> params \<Rightarrow> error + ErrorRatePerEndpoint" where
  "ErrorRatePerEndpoint_Update m ps =
     (case endpointName ps of
        Inl e \<Rightarrow> Inl e
      | Inr endpoint \<Rightarrow>
          (case ps ''statusCode'' of
             Some (VInt code) \<Rightarrow>
               (let h1 = (if code \<ge> 400
                          then store_incr (er_heap m) (er_errorCount m) endpoint
                          else er_heap m);
                    h2 = store_incr h1 (er_numReq m) endpoint
                in Inr (m \<lparr> er_heap := h2 \<rparr>))
           | _ \<Rightarrow> Inl PanicInterfaceConversion))"

definition ErrorRatePerEndpoint_doSnapshot :: "ErrorRatePerEndpoint \<Rightarrow> ErrorRatePerEndpoint" where
  "ErrorRatePerEndpoint_doSnapshot m =
     ErrorRatePerEndpoint_init
       (m \<lparr> er_snapshots := er_snapshots m @
               [\<lparr> ers_numReq = er_numReq m, ers_errorCount = er_errorCount m \<rparr>] \<rparr>)"

text \<open>The first loop of ValueMap sums the snapshots, ranging over the keys of each
  snapshot's \<^verbatim>\<open>errorCount\<close>.\<close>

definition err_add_snapshot ::
  "store \<Rightarrow> int gomap \<times> int gomap \<Rightarrow> ErrorRatePerEndpointSnapshot \<Rightarrow> int gomap \<times> int gomap" where
  "err_add_snapshot h acc snapshot =
     foldl (\<lambda>(errorCount, requestCount) endpoint.
              (map_add_to errorCount endpoint (store_get h (ers_errorCount snapshot) endpoint),
               map_add_to requestCount endpoint (store_get h (ers_numReq snapshot) endpoint)))
           acc (map_keys (h ! ers_errorCount snapshot))"

text \<open>The second loop turns the sums into rates, ranging over the keys of the summed
  \<^verbatim>\<open>errorCount\<close>.\<close>

definition err_rate_step ::
  "ErrorRatePerEndpoint \<Rightarrow> int gomap \<Rightarrow> int gomap \<Rightarrow> rat gomap \<times> int \<times> int \<Rightarrow> string
     \<Rightarrow> rat gomap \<times> int \<times> int" where
  "err_rate_step m errorCount requestCount acc endpoint =
     (case acc of (errorRate, errorCountOverall, requestCountOverall) \<Rightarrow>
        (let name = metricName m endpoint;
             r1 = map_put errorRate name 0;
             overallReq = float32 (of_int (map_get requestCount endpoint));
             r2 = (if overallReq > 0
                   then map_put r1 name
                          (float32 (float32 (of_int (map_get errorCount endpoint)) / overallReq))
                   else r1)
         in (r2, errorCountOverall + map_get errorCount endpoint,
                 requestCountOverall + map_get requestCount endpoint)))"

definition ErrorRatePerEndpoint_ValueMap ::
  "ErrorRatePerEndpoint \<Rightarrow> ErrorRatePerEndpoint \<times> rat gomap" where
  "ErrorRatePerEndpoint_ValueMap m0 =
     (let m = ErrorRatePerEndpoint_doSnapshot m0;
          (errorCount, requestCount) =
             foldl (err_add_snapshot (er_heap m)) ([], []) (er_snapshots m);
          (errorRate, errorCountOverall, requestCountOverall) =
             foldl (err_rate_step m errorCount requestCount) ([], 0, 0) (map_keys errorCount);
          r1 = map_put errorRate (overallName m) 0;
          r2 = (if requestCountOverall > 0
                then map_put r1 (overallName m)
                       (float32 (float32 (of_int errorCountOverall) /
                                 float32 (of_int requestCountOverall)))
                else r1)
      in (m, r2))"

definition ErrorRatePerEndpoint_Clear :: "ErrorRatePerEndpoint \<Rightarrow> ErrorRatePerEndpoint" where
  "ErrorRatePerEndpoint_Clear m = m \<lparr> er_snapshots := [] \<rparr>"

section \<open>Response time per endpoint\<close>

text \<open>
  No reference to the maps of this metric is ever copied, so they are held by value.
  \<^verbatim>\<open>time.Since\<close> reads the clock: the reading is an argument of Update.
\<close>

record ResponseTimePerEndpoint = MetricBase +
  rt_numReq :: "int gomap"
  responseTimeMap :: "rat list gomap"

definition NewResponseTimePerEndpoint :: ResponseTimePerEndpoint where
  "NewResponseTimePerEndpoint =
     (let metric = \<lparr> endpoints = [],
                     namePrefix = ''Component/ResponseTimePerEndpoint/'',
                     namePrefixOverall = ''Component/ResponseTime/overall'',
                     metricUnit = ''[ms]'',
                     rt_numReq = [], responseTimeMap = [] \<rparr>;
          t1 = foldl (\<lambda>t endpoint. map_put t endpoint [0]) (responseTimeMap metric)
                     (endpoints metric);
          t2 = map_put t1 unknownEndpoint [0]
      in metric \<lparr> responseTimeMap := t2 \<rparr>)"

definition ResponseTimePerEndpoint_Update ::
  "int \<Rightarrow> ResponseTimePerEndpoint \<Rightarrow> params \<Rightarrow> error + ResponseTimePerEndpoint" where
  "ResponseTimePerEndpoint_Update now m ps =
     (case ps ''reqStartTime'' of
        None \<Rightarrow> Inl (Error ''reqStart time should be time.Time'')
      | Some (VTime startTime) \<Rightarrow>
          (let elaspsedTimeInMs =
                 float32 (float32 (of_int (now - startTime)) / float32 (of_int 1000000))
           in case endpointName ps of
                Inl e \<Rightarrow> Inl e
              | Inr endpoint \<Rightarrow>
                  Inr (m \<lparr> rt_numReq := map_add_to (rt_numReq m) endpoint 1,
                           responseTimeMap :=
                             map_put (responseTimeMap m) endpoint
                               (slice_get (responseTimeMap m) endpoint @ [elaspsedTimeInMs]) \<rparr>))
      | Some _ \<Rightarrow> Inl PanicInterfaceConversion)"

definition resp_step ::
  "ResponseTimePerEndpoint \<Rightarrow> (rat gomap \<times> rat \<times> int) \<times> int gomap \<times> rat list gomap
     \<Rightarrow> string \<times> rat list \<Rightarrow> (rat gomap \<times> rat \<times> int) \<times> int gomap \<times> rat list gomap" where
  "resp_step m acc entry =
     (case (acc, entry) of
        (((metrics, responseTimeAllEndpoints, numReqAllEndpoints), numReq, rtm),
         (endpoint, vs)) \<Rightarrow>
        (let responseTimeSum = foldl (\<lambda>s v. float32 (s + v)) 0 vs;
             name = metricName m endpoint;
             r1 = map_put metrics name 0;
             n = float32 (of_int (map_get numReq endpoint));
             r2 = (if n > 0 then map_put r1 name (float32 (responseTimeSum / n)) else r1)
         in ((r2, float32 (responseTimeAllEndpoints + responseTimeSum),
                  numReqAllEndpoints + map_get numReq endpoint),
             map_put numReq endpoint 0,
             map_put rtm endpoint [0])))"

definition ResponseTimePerEndpoint_ValueMap ::
  "ResponseTimePerEndpoint \<Rightarrow> ResponseTimePerEndpoint \<times> rat gomap" where
  "ResponseTimePerEndpoint_ValueMap m =
     (let ((metrics, responseTimeAllEndpoints, numReqAllEndpoints), numReq, rtm) =
             foldl (resp_step m) (([], 0, 0), rt_numReq m, responseTimeMap m)
                   (responseTimeMap m);
          r1 = map_put metrics (overallName m) 0;
          r2 = (if numReqAllEndpoints > 0
                then map_put r1 (overallName m)
                       (float32 (responseTimeAllEndpoints / float32 (of_int numReqAllEndpoints)))
                else r1)
      in (m \<lparr> rt_numReq := numReq, responseTimeMap := rtm \<rparr>, r2))"

definition ResponseTimePerEndpoint_Clear :: "ResponseTimePerEndpoint \<Rightarrow> ResponseTimePerEndpoint" where
  "ResponseTimePerEndpoint_Clear m = m"

section \<open>The AppMetric interface and the reporter\<close>

text \<open>
  The interface has three implementations.  Update takes the clock reading that
  \<^verbatim>\<open>time.Since\<close> would see; only the response-time metric uses it.
\<close>

datatype AppMetric =
    Req ReqPerEndpoint
  | Err ErrorRatePerEndpoint
  | Resp ResponseTimePerEndpoint

fun Update :: "AppMetric \<Rightarrow> int \<Rightarrow> params \<Rightarrow> error + AppMetric" where
  "Update (Req m) now ps = map_sum id Req (ReqPerEndpoint_Update m ps)"
| "Update (Err m) now ps = map_sum id Err (ErrorRatePerEndpoint_Update m ps)"
| "Update (Resp m) now ps = map_sum id Resp (ResponseTimePerEndpoint_Update now m ps)"

fun ValueMap :: "AppMetric \<Rightarrow> AppMetric \<times> rat gomap" where
  "ValueMap (Req m) = map_prod Req id (ReqPerEndpoint_ValueMap m)"
| "ValueMap (Err m) = map_prod Err id (ErrorRatePerEndpoint_ValueMap m)"
| "ValueMap (Resp m) = map_prod Resp id (ResponseTimePerEndpoint_ValueMap m)"

fun Clear :: "AppMetric \<Rightarrow> AppMetric" where
  "Clear (Req m) = Req (ReqPerEndpoint_Clear m)"
| "Clear (Err m) = Err (ErrorRatePerEndpoint_Clear m)"
| "Clear (Resp m) = Resp (ResponseTimePerEndpoint_Clear m)"

text \<open>A run of Update calls, one after the other; a panic ends the run.\<close>

fun Updates :: "AppMetric \<Rightarrow> (int \<times> params) list \<Rightarrow> error + AppMetric" where
  "Updates m [] = Inr m"
| "Updates m ((now, ps) # rest) =
     (case Update m now ps of Inl e \<Rightarrow> Inl e | Inr m' \<Rightarrow> Updates m' rest)"

text \<open>
  The reporter.  Of its fields only the metrics change; the others (host, pid, licence,
  the verbose flag and what it prints) are left out.  What the HTTP client answers is an
  input of a cycle: a transport error with its message, or a response with its status
  code.  \<^verbatim>\<open>doRequest\<close> returns nothing to \<^verbatim>\<open>sendMetrics\<close>; all it does with the answer is
  write to the log, so the model returns the lines it logs.
\<close>

datatype delivery = TransportError string | Response int

datatype log_line =
    PostRequestFailed       \<comment> \<open>\<^verbatim>\<open>"Post request to NewRelic failed"\<close>\<close>
  | ErrorText string        \<comment> \<open>the transport error, printed\<close>
  | ErrorStatusCode int     \<comment> \<open>\<^verbatim>\<open>"Error in request to NewRelic, status code %d"\<close>\<close>

record Reporter =
  Metrics :: "AppMetric list"

definition doRequest :: "delivery \<Rightarrow> log_line list" where
  "doRequest d =
     (case d of
        TransportError err \<Rightarrow> [PostRequestFailed, ErrorText err]
      | Response statusCode \<Rightarrow>
          (if statusCode \<noteq> 200 then [ErrorStatusCode statusCode] else []))"

text \<open>
  \<^verbatim>\<open>sendMetrics\<close> ranges over the metrics, takes each one's ValueMap and copies its
  entries into the one map of the payload; then it marshals and calls \<^verbatim>\<open>doRequest\<close>.
  A failure of \<^verbatim>\<open>json.Marshal\<close> is dropped by the code and the request is made all the
  same.  The result is the reporter after the cycle, the payload's metrics and the log.
\<close>

definition collect :: "AppMetric list \<times> rat gomap \<Rightarrow> AppMetric \<Rightarrow> AppMetric list \<times> rat gomap" where
  "collect acc metric =
     (case acc of (done, payload) \<Rightarrow>
        (let (metric', values) = ValueMap metric
         in (done @ [metric'],
             foldl (\<lambda>p (name, v). map_put p name v) payload values)))"

definition sendMetrics ::
  "Reporter \<Rightarrow> delivery \<Rightarrow> Reporter \<times> rat gomap \<times> log_line list" where
  "sendMetrics reporter d =
     (let (metrics, payload) = foldl collect ([], []) (Metrics reporter)
      in (reporter \<lparr> Metrics := metrics \<rparr>, payload, doRequest d))"

definition AddMetric :: "Reporter \<Rightarrow> AppMetric \<Rightarrow> Reporter" where
  "AddMetric reporter metric = reporter \<lparr> Metrics := Metrics reporter @ [metric] \<rparr>"

section \<open>Request parameters\<close>

text \<open>
  \<^verbatim>\<open>DefaultReqParams\<close> fills the bag at the start of a request (its argument \<open>now\<close> is what
  \<^verbatim>\<open>time.Now()\<close> returns), \<^verbatim>\<open>CollectParamsOnReqEnd\<close> adds the status code at its end.
\<close>

definition DefaultReqParams :: "int \<Rightarrow> string \<Rightarrow> params" where
  "DefaultReqParams now endpoint =
     [''endpointName'' \<mapsto> VString endpoint, ''reqStartTime'' \<mapsto> VTime now]"

definition CollectParamsOnReqEnd :: "params \<Rightarrow> int \<Rightarrow> params" where
  "CollectParamsOnReqEnd ps statusCode = ps(''statusCode'' \<mapsto> VInt statusCode)"

abbreviation request :: "string \<Rightarrow> int \<Rightarrow> params" where
  "request endpoint statusCode \<equiv> CollectParamsOnReqEnd (DefaultReqParams 0 endpoint) statusCode"

section \<open>Runs and observations\<close>

text \<open>Calls in sequence: a call that fails ends the run with its error.\<close>

definition then_do :: "error + 'a \<Rightarrow> ('a \<Rightarrow> error + 'b) \<Rightarrow> error + 'b" where
  "then_do r f = (case r of Inl e \<Rightarrow> Inl e | Inr x \<Rightarrow> f x)"

text \<open>A bag that names an endpoint and carries an integer status code.\<close>

definition is_request :: "params \<Rightarrow> string \<Rightarrow> int \<Rightarrow> bool" where
  "is_request ps endpoint statusCode \<longleftrightarrow>
     ps ''endpointName'' = Some (VString endpoint) \<and> ps ''statusCode'' = Some (VInt statusCode)"

text \<open>What the \<open>i\<close>-th retained snapshot of the error-rate metric holds: the two maps its
  fields refer to, as the store has them now.\<close>

definition ErrorRate_snapshot_contents ::
  "ErrorRatePerEndpoint \<Rightarrow> nat \<Rightarrow> int gomap \<times> int gomap" where
  "ErrorRate_snapshot_contents m i =
     (let s = er_snapshots m ! i
      in (er_heap m ! ers_numReq s, er_heap m ! ers_errorCount s))"

section \<open>Invariants of the metric states\<close>

text \<open>
  A map reference in Go always refers to a map.  In the store this reads: the addresses a
  metric holds are addresses of the store.  For the request-count metric no retained
  snapshot refers to the live map; for the error-rate metric the two live maps are two
  maps; for the response-time metric the keys of \<^verbatim>\<open>responseTimeMap\<close> are distinct (it is a
  map) and \<^verbatim>\<open>"other"\<close> is one of them.  The constructors establish these facts and
  Update, ValueMap and Clear keep them (shown below).
\<close>

definition Req_inv :: "ReqPerEndpoint \<Rightarrow> bool" where
  "Req_inv m \<longleftrightarrow>
     rq_numReq m < length (rq_heap m) \<and>
     list_all (\<lambda>s. rqs_numReq s < length (rq_heap m) \<and> rqs_numReq s \<noteq> rq_numReq m)
              (rq_snapshots m)"

definition ErrorRate_inv :: "ErrorRatePerEndpoint \<Rightarrow> bool" where
  "ErrorRate_inv m \<longleftrightarrow>
     er_numReq m < length (er_heap m) \<and> er_errorCount m < length (er_heap m) \<and>
     er_numReq m \<noteq> er_errorCount m"

definition ResponseTime_inv :: "ResponseTimePerEndpoint \<Rightarrow> bool" where
  "ResponseTime_inv m \<longleftrightarrow>
     distinct (map_keys (responseTimeMap m)) \<and>
     unknownEndpoint \<in> set (map_keys (responseTimeMap m))"

fun metric_inv :: "AppMetric \<Rightarrow> bool" where
  "metric_inv (Req m) = Req_inv m"
| "metric_inv (Err m) = ErrorRate_inv m"
| "metric_inv (Resp m) = ResponseTime_inv m"

section \<open>What a metric has counted\<close>

text \<open>The live counters of the error-rate metric.\<close>

definition er_requests :: "ErrorRatePerEndpoint \<Rightarrow> string \<Rightarrow> int" where
  "er_requests m endpoint = store_get (er_heap m) (er_numReq m) endpoint"

definition er_errors :: "ErrorRatePerEndpoint \<Rightarrow> string \<Rightarrow> int" where
  "er_errors m endpoint = store_get (er_heap m) (er_errorCount m) endpoint"

text \<open>The live request counter of any metric, the endpoints it has a bucket for, and
  whether a bag carries what the metric's Update asserts to be there.\<close>

fun live_requests :: "AppMetric \<Rightarrow> string \<Rightarrow> int" where
  "live_requests (Req m) endpoint = store_get (rq_heap m) (rq_numReq m) endpoint"
| "live_requests (Err m) endpoint = er_requests m endpoint"
| "live_requests (Resp m) endpoint = map_get (rt_numReq m) endpoint"

fun buckets :: "AppMetric \<Rightarrow> string set" where
  "buckets (Req m) = set (map_keys (rq_heap m ! rq_numReq m))"
| "buckets (Err m) = set (map_keys (er_heap m ! er_numReq m))"
| "buckets (Resp m) = set (map_keys (rt_numReq m))"

fun has_required :: "AppMetric \<Rightarrow> params \<Rightarrow> bool" where
  "has_required (Req m) ps = True"
| "has_required (Err m) ps =
     (case ps ''statusCode'' of Some (VInt c) \<Rightarrow> True | _ \<Rightarrow> False)"
| "has_required (Resp m) ps =
     (case ps ''reqStartTime'' of Some (VTime t) \<Rightarrow> True | _ \<Rightarrow> False)"

text \<open>
  All entries a request-count metric holds: those of its retained snapshots, in order,
  then those of the live map.  ValueMap ranges over exactly these.
\<close>

definition rq_retained :: "ReqPerEndpoint \<Rightarrow> (string \<times> int) list" where
  "rq_retained m = concat (map (\<lambda>s. rq_heap m ! rqs_numReq s) (rq_snapshots m))"

definition rq_entries :: "ReqPerEndpoint \<Rightarrow> (string \<times> int) list" where
  "rq_entries m = rq_retained m @ rq_heap m ! rq_numReq m"

definition entries_total :: "(string \<times> int) list \<Rightarrow> int" where
  "entries_total E = sum_list (map snd E)"

definition named_sum :: "(string \<Rightarrow> string) \<Rightarrow> (string \<times> int) list \<Rightarrow> string \<Rightarrow> rat" where
  "named_sum f E n = sum_list (map (\<lambda>(k, v). if f k = n then of_int v else 0) E)"

text \<open>The step of the inner loop of the request-count ValueMap, and the two loops run
  over a list of entries.\<close>

definition req_step ::
  "(string \<Rightarrow> string) \<Rightarrow> rat gomap \<times> int \<Rightarrow> string \<times> int \<Rightarrow> rat gomap \<times> int" where
  "req_step f acc entry =
     (case (acc, entry) of
        ((reqCount, numReqAllEndpoints), (endpoint, v)) \<Rightarrow>
          (map_put reqCount (f endpoint)
             (float32 (map_get reqCount (f endpoint) + float32 (of_int v))),
           numReqAllEndpoints + v))"

definition req_export :: "(string \<Rightarrow> string) \<Rightarrow> string \<Rightarrow> (string \<times> int) list \<Rightarrow> rat gomap" where
  "req_export f overall E =
     (let (reqCount, numReqAllEndpoints) = foldl (req_step f) ([], 0) E
      in map_put reqCount overall (float32 (of_int numReqAllEndpoints)))"

text \<open>No count of the request-count metric is negative: the constructor writes zeros,
  Update adds one, and ValueMap and Clear change no count (shown below).\<close>

definition rq_nonneg :: "ReqPerEndpoint \<Rightarrow> bool" where
  "rq_nonneg m \<longleftrightarrow> list_all (\<lambda>(k, v). 0 \<le> v) (rq_entries m)"

text \<open>Two states of the request-count metric that hold, name by name, the same sums.\<close>

definition same_report :: "ReqPerEndpoint \<Rightarrow> ReqPerEndpoint \<Rightarrow> bool" where
  "same_report m1 m2 \<longleftrightarrow>
     metricName m1 = metricName m2 \<and> overallName m1 = overallName m2 \<and>
     entries_total (rq_entries m1) = entries_total (rq_entries m2) \<and>
     metricName m1 ` fst ` set (rq_entries m1) = metricName m2 ` fst ` set (rq_entries m2) \<and>
     (\<forall>n. named_sum (metricName m1) (rq_entries m1) n = named_sum (metricName m2) (rq_entries m2) n)"

section \<open>Two ways to export a run of updates\<close>

text \<open>Export once, after all updates; or after every update, keeping the last export.\<close>

definition export_once :: "AppMetric \<Rightarrow> (int \<times> params) list \<Rightarrow> error + rat gomap" where
  "export_once m evs = then_do (Updates m evs) (\<lambda>m'. Inr (snd (ValueMap m')))"

fun update_export_each ::
  "AppMetric \<Rightarrow> rat gomap \<Rightarrow> (int \<times> params) list \<Rightarrow> error + AppMetric \<times> rat gomap" where
  "update_export_each m prev [] = Inr (m, prev)"
| "update_export_each m prev ((now, ps) # rest) =
     (case Update m now ps of
        Inl e \<Rightarrow> Inl e
      | Inr m' \<Rightarrow> (let (m'', values) = ValueMap m' in update_export_each m'' values rest))"

definition export_after_each :: "AppMetric \<Rightarrow> (int \<times> params) list \<Rightarrow> error + rat gomap" where
  "export_after_each m evs = map_sum id snd (update_export_each m [] evs)"

section \<open>Entries of an export\<close>

text \<open>The name of the aggregate entry and of the entry of \<^verbatim>\<open>"other"\<close>, for any metric.\<close>

fun overall_entry :: "AppMetric \<Rightarrow> string" where
  "overall_entry (Req m) = overallName m"
| "overall_entry (Err m) = overallName m"
| "overall_entry (Resp m) = overallName m"

fun other_entry :: "AppMetric \<Rightarrow> string" where
  "other_entry (Req m) = metricName m unknownEndpoint"
| "other_entry (Err m) = metricName m unknownEndpoint"
| "other_entry (Resp m) = metricName m unknownEndpoint"

text \<open>
  The request-count metric exports an entry for \<^verbatim>\<open>"other"\<close> when its live map or a retained
  snapshot has that key; the two other metrics need no such condition.
\<close>

fun keeps_other :: "AppMetric \<Rightarrow> bool" where
  "keeps_other (Req m) = (unknownEndpoint \<in> fst ` set (rq_entries m))"
| "keeps_other (Err m) = True"
| "keeps_other (Resp m) = True"

text \<open>The response-time metric right after ValueMap: every slice is \<open>[0]\<close> and the count
  of every key of \<^verbatim>\<open>responseTimeMap\<close> is zero.\<close>

definition Resp_is_reset :: "ResponseTimePerEndpoint \<Rightarrow> bool" where
  "Resp_is_reset m \<longleftrightarrow>
     list_all (\<lambda>(k, vs). vs = [0] \<and> map_get (rt_numReq m) k = 0) (responseTimeMap m)"

section \<open>Properties\<close>

lemmas model_defs =
  make_map_def store_get_def store_put_def store_incr_def map_put_def map_get_def
  slice_get_def map_add_to_def map_keys_def unknownEndpoint_def endpointName_def
  metricName_def overallName_def
  NewReqPerEndpoint_def ReqPerEndpoint_Update_def ReqPerEndpoint_doSnapshot_def
  req_add_snapshot_def ReqPerEndpoint_ValueMap_def ReqPerEndpoint_Clear_def
  ErrorRatePerEndpoint_init_def NewErrorRatePerEndpoint_def ErrorRatePerEndpoint_Update_def
  ErrorRatePerEndpoint_doSnapshot_def err_add_snapshot_def err_rate_step_def
  ErrorRatePerEndpoint_ValueMap_def ErrorRatePerEndpoint_Clear_def
  NewResponseTimePerEndpoint_def ResponseTimePerEndpoint_Update_def resp_step_def
  ResponseTimePerEndpoint_ValueMap_def ResponseTimePerEndpoint_Clear_def
  DefaultReqParams_def CollectParamsOnReqEnd_def then_do_def is_request_def
  doRequest_def collect_def sendMetrics_def AddMetric_def ErrorRate_snapshot_contents_def
  er_requests_def er_errors_def export_once_def export_after_each_def

subsection \<open>float32 holds the integers up to \<open>2^24\<close> exactly\<close>

lemma round_half_even_of_int [simp]: "round_half_even (of_int n) = n"
  by (simp add: round_half_even_def)

lemma float32_0 [simp]: "float32 0 = 0"
  by (simp add: float32_def)

lemma ilog2_lower:
  assumes "0 < x"
  shows "2 powi (ilog2 x) \<le> x"
proof -
  obtain a b where q: "quotient_of x = (a, b)" by (cases "quotient_of x")
  then have b: "0 < b" and x: "x = of_int a / of_int b"
    using quotient_of_denom_pos [OF q] quotient_of_div [OF q] by simp_all
  with assms have a: "0 < a"
    by (simp add: zero_less_divide_iff)
  let ?d = "bitlen a - bitlen b"
  show ?thesis
  proof (cases "x < 2 powi ?d")
    case False
    then show ?thesis by (simp add: ilog2_def q)
  next
    case True
    have la: "(2::rat) ^ nat (bitlen a - 1) \<le> of_int a"
      using bitlen_bounds [OF a] by (metis of_int_le_iff of_int_numeral of_int_power)
    have lb: "of_int b < (2::rat) ^ nat (bitlen b)"
      using bitlen_bounds [OF b] by (metis of_int_less_iff of_int_numeral of_int_power)
    have pa: "1 \<le> bitlen a" and pb: "1 \<le> bitlen b"
      using a b bitlen_eq_zero_iff [of a] bitlen_eq_zero_iff [of b]
        bitlen_nonneg [of a] bitlen_nonneg [of b]
      by linarith+
    have "(2::rat) powi (?d - 1) = 2 powi (bitlen a - 1) / 2 powi (bitlen b)"
      using power_int_diff [of "2::rat" "bitlen a - 1" "bitlen b"] by (simp add: algebra_simps)
    also have "\<dots> = 2 ^ nat (bitlen a - 1) / 2 ^ nat (bitlen b)"
      using pa pb by (simp add: power_int_nonneg_exp)
    also have "\<dots> \<le> of_int a / 2 ^ nat (bitlen b)"
      using la by (simp add: divide_right_mono)
    also have "\<dots> \<le> of_int a / of_int b"
      using lb a b by (simp add: frac_le)
    also have "\<dots> = x" by (simp add: x)
    finally have "(2::rat) powi (?d - 1) \<le> x" .
    with True show ?thesis by (simp add: ilog2_def q)
  qed
qed

lemma ilog2_upper:
  assumes "0 < x"
  shows "x < 2 powi (ilog2 x + 1)"
proof -
  obtain a b where q: "quotient_of x = (a, b)" by (cases "quotient_of x")
  then have b: "0 < b" and x: "x = of_int a / of_int b"
    using quotient_of_denom_pos [OF q] quotient_of_div [OF q] by simp_all
  with assms have a: "0 < a"
    by (simp add: zero_less_divide_iff)
  let ?d = "bitlen a - bitlen b"
  show ?thesis
  proof (cases "x < 2 powi ?d")
    case True
    then show ?thesis by (simp add: ilog2_def q)
  next
    case False
    have ua: "of_int a < (2::rat) ^ nat (bitlen a)"
      using bitlen_bounds [OF a] by (metis of_int_less_iff of_int_numeral of_int_power)
    have lb: "(2::rat) ^ nat (bitlen b - 1) \<le> of_int b"
      using bitlen_bounds [OF b] by (metis of_int_le_iff of_int_numeral of_int_power)
    have pa: "1 \<le> bitlen a" and pb: "1 \<le> bitlen b"
      using a b bitlen_eq_zero_iff [of a] bitlen_eq_zero_iff [of b]
        bitlen_nonneg [of a] bitlen_nonneg [of b]
      by linarith+
    have "of_int a / of_int b < (2::rat) ^ nat (bitlen a) / of_int b"
      using ua b by (simp add: divide_strict_right_mono)
    also have "\<dots> \<le> 2 ^ nat (bitlen a) / 2 ^ nat (bitlen b - 1)"
      using lb by (simp add: frac_le)
    also have "\<dots> = 2 powi (bitlen a) / 2 powi (bitlen b - 1)"
      using pa pb by (simp add: power_int_nonneg_exp)
    also have "\<dots> = 2 powi (?d + 1)"
      using power_int_diff [of "2::rat" "bitlen a" "bitlen b - 1"] by (simp add: algebra_simps)
    finally have "of_int a / of_int b < (2::rat) powi (?d + 1)" .
    then have "x < 2 powi (?d + 1)" by (simp add: x)
    with False show ?thesis by (simp add: ilog2_def q)
  qed
qed

lemma float32_exact:
  assumes "\<bar>n\<bar> \<le> 2 ^ 24"
  shows "float32 (of_int n) = of_int n"
proof (cases "n = 0")
  case True
  then show ?thesis by simp
next
  case False
  let ?e = "ilog2 \<bar>rat_of_int n\<bar>"
  have pos: "0 < \<bar>rat_of_int n\<bar>" using False by simp
  have low: "2 powi ?e \<le> \<bar>rat_of_int n\<bar>" by (rule ilog2_lower [OF pos])
  also have "\<dots> \<le> 2 ^ 24" using assms
    by (metis of_int_abs of_int_le_iff of_int_numeral of_int_power)
  finally have le: "(2::rat) powi ?e \<le> 2 powi 24" by simp
  then have e: "?e \<le> 24"
    by (rule power_int_le_imp_le_exp [rotated]) simp_all
  have "\<exists>k. rat_of_int n / 2 powi (?e - 23) = of_int k"
  proof (cases "?e \<le> 23")
    case True
    then have "rat_of_int n / 2 powi (?e - 23) = of_int (n * 2 ^ nat (23 - ?e))"
      by (simp add: power_int_def field_simps)
    then show ?thesis by blast
  next
    case False
    with e have e24: "?e = 24" by simp
    with low have "2 ^ 24 \<le> \<bar>rat_of_int n\<bar>" by simp
    then have "2 ^ 24 \<le> \<bar>n\<bar>"
      by (metis of_int_abs of_int_le_iff of_int_numeral of_int_power)
    with assms have "\<bar>n\<bar> = 2 ^ 24" by simp
    then have "n = 2 ^ 24 \<or> n = - (2 ^ 24)" by (simp add: abs_if split: if_splits)
    then have "rat_of_int n / 2 powi (?e - 23) = of_int (n div 2)"
      by (auto simp: e24)
    then show ?thesis by blast
  qed
  then obtain k where k: "rat_of_int n / 2 powi (?e - 23) = of_int k" by blast
  then have "of_int k * 2 powi (?e - 23) = rat_of_int n"
    by (simp add: field_simps)
  with False k show ?thesis
    by (simp add: float32_def Let_def)
qed

lemma float32_1 [simp]: "float32 1 = 1"
  using float32_exact [of 1] by simp

lemma float32_numeral [simp]:
  "numeral k \<le> (16777216 :: int) \<Longrightarrow> float32 (numeral k) = numeral k"
  using float32_exact [of "numeral k"] by simp

text \<open>Past \<open>2^24\<close> only every second integer is a \<^verbatim>\<open>float32\<close>; a quarter is one.\<close>

lemma float32_16777217: "float32 16777217 = 16777216"
  by code_simp

lemma float32_16777218: "float32 16777218 = 16777218"
  by code_simp

lemma float32_quarter: "float32 (1 / 4) = 1 / 4"
  by code_simp

subsection \<open>Maps and the store\<close>

lemma map_get_put [simp]:
  "map_get (map_put M k v) k' = (if k' = k then v else map_get M k')"
  by (simp add: map_get_def map_put_def update_conv')

lemma keys_put [simp]: "set (map_keys (map_put M k v)) = insert k (set (map_keys M))"
  using dom_update [of k v M] by (simp add: map_keys_def map_put_def)

lemma length_store_put [simp]: "length (store_put h a k v) = length h"
  by (simp add: store_put_def)

lemma length_store_incr [simp]: "length (store_incr h a k) = length h"
  by (simp add: store_incr_def)

lemma store_put_nth:
  "a < length h \<Longrightarrow> store_put h a k v ! a' = (if a' = a then map_put (h ! a) k v else h ! a')"
  by (simp add: store_put_def)

lemma store_get_put:
  "a < length h \<Longrightarrow>
   store_get (store_put h a k v) a' k' = (if a' = a \<and> k' = k then v else store_get h a' k')"
  by (simp add: store_get_def store_put_nth)

lemma store_get_incr:
  "a < length h \<Longrightarrow>
   store_get (store_incr h a k) a' k' =
     (if a' = a \<and> k' = k then store_get h a k + 1 else store_get h a' k')"
  by (simp add: store_incr_def store_get_put)

lemma store_incr_nth:
  "a < length h \<Longrightarrow>
   store_incr h a k ! a' = (if a' = a then map_put (h ! a) k (map_get (h ! a) k + 1) else h ! a')"
  by (simp add: store_incr_def store_put_nth store_get_def)

lemma map_get_Nil [simp]: "map_get [] n = 0"
  by (simp add: map_get_def)

lemma map_keys_Nil [simp]: "map_keys [] = []"
  by (simp add: map_keys_def)

lemma map_get_absent: "k \<notin> set (map_keys M) \<Longrightarrow> map_get M k = 0"
  by (simp add: map_get_def map_keys_def map_of_eq_None_iff [THEN iffD2])

lemma endpointName_None: "ps ''endpointName'' = None \<Longrightarrow> endpointName ps = Inr unknownEndpoint"
  by (simp add: endpointName_def)

lemma endpointName_Some: "ps ''endpointName'' = Some (VString e) \<Longrightarrow> endpointName ps = Inr e"
  by (simp add: endpointName_def)

lemma map_of_gomap:
  "map_of M n = (if n \<in> set (map_keys M) then Some (map_get M n) else None)"
  by (auto simp: map_keys_def map_get_def map_of_eq_None_iff split: option.splits)

lemma gomap_eqI:
  assumes "set (map_keys M) = set (map_keys N)" and "\<And>n. map_get M n = map_get N n"
  shows "map_of M = map_of N"
  by (rule ext) (simp add: map_of_gomap assms)

lemma set_put_incr:
  "fst ` set (map_put M k v) = insert k (fst ` set M)"
  using keys_put [of M k v] by (simp add: map_keys_def)

lemma names_put:
  "f ` fst ` set (R @ map_put M e v) = insert (f e) (f ` fst ` set (R @ M))"
  by (auto simp: set_put_incr image_Un)

lemma nth_append_valid:
  "list_all (\<lambda>s. g s < length h) snaps \<Longrightarrow>
   map (\<lambda>s. (h @ xs) ! g s) snaps = map (\<lambda>s. h ! g s) snaps"
  by (induction snaps) (simp_all add: nth_append)

lemma nth_append_fresh [simp]: "(h @ [x, y]) ! Suc (length h) = y"
  by (simp add: nth_append)

lemma nth_append_old: "a < length h \<Longrightarrow> (h @ xs) ! a = h ! a"
  by (simp add: nth_append)

lemma map_of_put [simp]: "map_of (map_put M k v) = (map_of M)(k \<mapsto> v)"
  by (simp add: map_put_def update_conv')

lemma map_keys_put_present:
  "k \<in> set (map_keys M) \<Longrightarrow> map_keys (map_put M k v) = map_keys M"
  by (simp add: map_keys_def map_put_def update_keys)

lemma distinct_keys_put:
  "distinct (map_keys M) \<Longrightarrow> distinct (map_keys (map_put M k v))"
  by (simp add: map_keys_def map_put_def distinct_update)

subsection \<open>The request-count metric\<close>

lemma foldl_concat: "foldl (\<lambda>acc xs. foldl f acc xs) a xss = foldl f a (concat xss)"
  by (induction xss arbitrary: a) simp_all

lemma req_add_snapshot_step:
  "req_add_snapshot m acc s = foldl (req_step (metricName m)) acc (rq_heap m ! rqs_numReq s)"
proof -
  have "(\<lambda>(reqCount, numReqAllEndpoints) (endpoint, v).
            (map_put reqCount (metricName m endpoint)
               (float32 (map_get reqCount (metricName m endpoint) + float32 (of_int v))),
             numReqAllEndpoints + v)) = req_step (metricName m)"
    by (auto simp: req_step_def fun_eq_iff)
  then show ?thesis by (simp add: req_add_snapshot_def)
qed

lemma req_add_snapshots:
  "foldl (req_add_snapshot m) acc snaps =
   foldl (req_step (metricName m)) acc (concat (map (\<lambda>s. rq_heap m ! rqs_numReq s) snaps))"
  by (induction snaps arbitrary: acc) (simp_all add: req_add_snapshot_step)

lemma req_loop_keys:
  "set (map_keys (fst (foldl (req_step f) acc E))) = set (map_keys (fst acc)) \<union> f ` fst ` set E"
  "snd (foldl (req_step f) acc E) = snd acc + entries_total E"
  by (induction E arbitrary: acc)
     (auto simp: req_step_def entries_total_def split: prod.splits)

lemma entries_total_nonneg:
  "list_all (\<lambda>(k, v). 0 \<le> v) E \<Longrightarrow> 0 \<le> entries_total E"
  by (induction E) (auto simp: entries_total_def)

text \<open>While the sums stay within \<open>2^24\<close> the loop adds without rounding.\<close>

lemma req_loop_values:
  assumes "list_all (\<lambda>(k, v). 0 \<le> v) E"
    and "\<forall>n. map_get rc n = of_int (g n) \<and> 0 \<le> g n \<and> g n + entries_total E \<le> 2 ^ 24"
  shows "map_get (fst (foldl (req_step f) (rc, t) E)) n = map_get rc n + named_sum f E n"
  using assms
proof (induction E arbitrary: rc t g)
  case Nil
  then show ?case by (simp add: named_sum_def)
next
  case (Cons x E)
  obtain k v where x: "x = (k, v)" by (cases x)
  from Cons.prems(1) have v: "0 \<le> v" and E: "list_all (\<lambda>(k, v). 0 \<le> v) E"
    by (simp_all add: x)
  have tot: "entries_total (x # E) = v + entries_total E"
    by (simp add: x entries_total_def)
  note E0 = entries_total_nonneg [OF E]
  from Cons.prems(2) have g: "map_get rc (f k) = of_int (g (f k))" "0 \<le> g (f k)"
    "g (f k) + (v + entries_total E) \<le> 2 ^ 24"
    by (simp_all add: tot)
  have "\<bar>v\<bar> \<le> 2 ^ 24" using v g E0 by simp
  then have fv: "float32 (of_int v) = of_int v" by (rule float32_exact)
  have "\<bar>g (f k) + v\<bar> \<le> 2 ^ 24" using v g E0 by simp
  then have "float32 (of_int (g (f k) + v)) = of_int (g (f k) + v)" by (rule float32_exact)
  then have sum: "float32 (map_get rc (f k) + float32 (of_int v)) = of_int (g (f k) + v)"
    by (simp add: fv g(1))
  let ?rc = "map_put rc (f k) (of_int (g (f k) + v))"
  let ?g = "g(f k := g (f k) + v)"
  have step: "req_step f (rc, t) (k, v) = (?rc, t + v)"
    by (simp add: req_step_def sum)
  have "map_get ?rc n = of_int (?g n) \<and> 0 \<le> ?g n \<and> ?g n + entries_total E \<le> 2 ^ 24" for n
  proof -
    from Cons.prems(2) have "map_get rc n = of_int (g n)" "0 \<le> g n"
      "g n + (v + entries_total E) \<le> 2 ^ 24"
      by (simp_all add: tot)
    with v g show ?thesis by auto
  qed
  then have "\<forall>n. map_get ?rc n = of_int (?g n) \<and> 0 \<le> ?g n \<and> ?g n + entries_total E \<le> 2 ^ 24"
    by blast
  from Cons.IH [OF E this, of "t + v"]
  have "map_get (fst (foldl (req_step f) (?rc, t + v) E)) n = map_get ?rc n + named_sum f E n" .
  then show ?case
    by (simp add: step x named_sum_def g(1))
qed

lemma req_export_get:
  assumes "list_all (\<lambda>(k, v). 0 \<le> v) E" and "entries_total E \<le> 2 ^ 24"
  shows "map_get (req_export f overall E) n =
     (if n = overall then of_int (entries_total E) else named_sum f E n)"
proof -
  have "\<forall>n. map_get ([] :: rat gomap) n = of_int ((\<lambda>_. 0) n) \<and> 0 \<le> (\<lambda>_. 0::int) n \<and>
            (\<lambda>_. 0) n + entries_total E \<le> 2 ^ 24"
    using assms(2) by simp
  from req_loop_values [OF assms(1) this, of f 0 n]
  have v: "map_get (fst (foldl (req_step f) ([], 0) E)) n = named_sum f E n" by simp
  have t: "snd (foldl (req_step f) ([], 0) E) = entries_total E"
    by (simp add: req_loop_keys)
  have "\<bar>entries_total E\<bar> \<le> 2 ^ 24"
    using assms(2) entries_total_nonneg [OF assms(1)] by simp
  then have "float32 (of_int (entries_total E)) = of_int (entries_total E)"
    by (rule float32_exact)
  with v t show ?thesis
    by (cases "foldl (req_step f) ([], 0) E") (simp add: req_export_def)
qed

lemma req_export_keys:
  "set (map_keys (req_export f overall E)) = insert overall (f ` fst ` set E)"
  using req_loop_keys(1) [of f "([], 0)" E]
  by (cases "foldl (req_step f) ([], 0) E") (simp add: req_export_def)

lemma Req_inv_valid:
  "Req_inv m \<Longrightarrow> list_all (\<lambda>s. rqs_numReq s < length (rq_heap m)) (rq_snapshots m)"
  by (simp add: Req_inv_def list_all_iff)

lemma Req_doSnapshot_state:
  "ReqPerEndpoint_doSnapshot m =
     m \<lparr> rq_heap := rq_heap m @ [[]], rq_numReq := length (rq_heap m),
         rq_snapshots := rq_snapshots m @ [\<lparr> rqs_numReq = rq_numReq m \<rparr>] \<rparr>"
  by (simp add: ReqPerEndpoint_doSnapshot_def make_map_def)

lemma Req_ValueMap_state:
  "fst (ReqPerEndpoint_ValueMap m) =
     m \<lparr> rq_heap := rq_heap m @ [[], []], rq_numReq := Suc (length (rq_heap m)),
         rq_snapshots := rq_snapshots m @ [\<lparr> rqs_numReq = rq_numReq m \<rparr>] \<rparr>"
  by (simp add: ReqPerEndpoint_ValueMap_def Req_doSnapshot_state make_map_def Let_def
      split: prod.splits)

lemma Req_ValueMap_export:
  assumes "Req_inv m"
  shows "snd (ReqPerEndpoint_ValueMap m) = req_export (metricName m) (overallName m) (rq_entries m)"
proof -
  let ?d = "ReqPerEndpoint_doSnapshot m"
  have names: "metricName ?d = metricName m" "overallName ?d = overallName m"
    by (rule ext) (simp_all add: metricName_def overallName_def Req_doSnapshot_state)
  have live: "rq_numReq m < length (rq_heap m)"
    using assms by (simp add: Req_inv_def)
  have "concat (map (\<lambda>s. rq_heap ?d ! rqs_numReq s) (rq_snapshots ?d)) = rq_entries m"
    by (simp add: Req_doSnapshot_state rq_entries_def rq_retained_def
        nth_append_valid [OF Req_inv_valid [OF assms]] nth_append_old [OF live])
  then show ?thesis
    by (simp add: ReqPerEndpoint_ValueMap_def req_add_snapshots req_export_def names
        make_map_def Let_def split: prod.splits)
qed

lemma Req_ValueMap_entries:
  assumes "Req_inv m"
  shows "rq_entries (fst (ReqPerEndpoint_ValueMap m)) = rq_entries m"
proof -
  have live: "rq_numReq m < length (rq_heap m)"
    using assms by (simp add: Req_inv_def)
  show ?thesis
    by (simp add: Req_ValueMap_state rq_entries_def rq_retained_def
        nth_append_valid [OF Req_inv_valid [OF assms]] nth_append_old [OF live])
qed

lemma Req_ValueMap_inv:
  assumes "Req_inv m"
  shows "Req_inv (fst (ReqPerEndpoint_ValueMap m))"
  using assms by (auto simp: Req_ValueMap_state Req_inv_def list_all_iff)

lemma Req_ValueMap_names:
  "metricName (fst (ReqPerEndpoint_ValueMap m)) = metricName m"
  "overallName (fst (ReqPerEndpoint_ValueMap m)) = overallName m"
  by (rule ext) (simp_all add: metricName_def overallName_def Req_ValueMap_state)

lemma named_sum_append [simp]: "named_sum f (E @ E') n = named_sum f E n + named_sum f E' n"
  by (simp add: named_sum_def)

lemma entries_total_append [simp]: "entries_total (E @ E') = entries_total E + entries_total E'"
  by (simp add: entries_total_def)

lemma named_sum_incr:
  "named_sum f (map_put M k (map_get M k + 1)) n = named_sum f M n + (if f k = n then 1 else 0)"
  by (induction M) (auto simp: named_sum_def map_put_def map_get_def)

lemma entries_total_incr:
  "entries_total (map_put M k (map_get M k + 1)) = entries_total M + 1"
  by (induction M) (auto simp: entries_total_def map_put_def map_get_def)

lemma nonneg_map_get: "list_all (\<lambda>(k, v). 0 \<le> v) M \<Longrightarrow> (0::int) \<le> map_get M k"
  by (induction M) (auto simp: map_get_def)

lemma nonneg_map_put:
  "list_all (\<lambda>(k, v). 0 \<le> v) M \<Longrightarrow> (0::int) \<le> v \<Longrightarrow> list_all (\<lambda>(k, v). 0 \<le> v) (map_put M k v)"
  by (induction M) (auto simp: map_put_def)

lemma Req_Update_entries:
  assumes "Req_inv m" and "ReqPerEndpoint_Update m ps = Inr m'"
  shows "\<exists>e. endpointName ps = Inr e \<and>
           rq_entries m' = rq_retained m @ map_put (rq_heap m ! rq_numReq m) e
                              (map_get (rq_heap m ! rq_numReq m) e + 1)"
proof -
  from assms(2) obtain e where e: "endpointName ps = Inr e"
    and m': "m' = m \<lparr> rq_heap := store_incr (rq_heap m) (rq_numReq m) e \<rparr>"
    by (auto simp: ReqPerEndpoint_Update_def split: sum.splits)
  have "map (\<lambda>s. store_incr (rq_heap m) (rq_numReq m) e ! rqs_numReq s) (rq_snapshots m) =
        map (\<lambda>s. rq_heap m ! rqs_numReq s) (rq_snapshots m)"
    using assms(1) by (auto simp: Req_inv_def list_all_iff store_incr_nth)
  moreover have "store_incr (rq_heap m) (rq_numReq m) e ! rq_numReq m =
      map_put (rq_heap m ! rq_numReq m) e (map_get (rq_heap m ! rq_numReq m) e + 1)"
    using assms(1) by (simp add: Req_inv_def store_incr_nth)
  ultimately show ?thesis
    using e by (simp add: m' rq_entries_def rq_retained_def cong: map_cong)
qed

text \<open>A retained snapshot of the request-count metric keeps its map: Update writes to
  the live map, which no snapshot refers to, and ValueMap retains the live map as it is and
  goes on with a new one.\<close>

lemma Req_snapshots_kept:
  assumes "Req_inv m"
  shows "ReqPerEndpoint_Update m ps = Inr m' \<Longrightarrow> rq_snapshots m' = rq_snapshots m \<and>
           map (\<lambda>s. rq_heap m' ! rqs_numReq s) (rq_snapshots m') =
           map (\<lambda>s. rq_heap m ! rqs_numReq s) (rq_snapshots m)"
    and "map (\<lambda>s. rq_heap (fst (ReqPerEndpoint_ValueMap m)) ! rqs_numReq s)
           (rq_snapshots (fst (ReqPerEndpoint_ValueMap m))) =
         map (\<lambda>s. rq_heap m ! rqs_numReq s) (rq_snapshots m) @ [rq_heap m ! rq_numReq m]"
proof -
  have live: "rq_numReq m < length (rq_heap m)"
    using assms by (simp add: Req_inv_def)
  show "map (\<lambda>s. rq_heap (fst (ReqPerEndpoint_ValueMap m)) ! rqs_numReq s)
           (rq_snapshots (fst (ReqPerEndpoint_ValueMap m))) =
         map (\<lambda>s. rq_heap m ! rqs_numReq s) (rq_snapshots m) @ [rq_heap m ! rq_numReq m]"
    by (simp add: Req_ValueMap_state nth_append_valid [OF Req_inv_valid [OF assms]]
        nth_append_old [OF live])
  assume "ReqPerEndpoint_Update m ps = Inr m'"
  then obtain e where m': "m' = m \<lparr> rq_heap := store_incr (rq_heap m) (rq_numReq m) e \<rparr>"
    by (auto simp: ReqPerEndpoint_Update_def split: sum.splits)
  have "map (\<lambda>s. store_incr (rq_heap m) (rq_numReq m) e ! rqs_numReq s) (rq_snapshots m) =
        map (\<lambda>s. rq_heap m ! rqs_numReq s) (rq_snapshots m)"
    using assms by (auto simp: Req_inv_def list_all_iff store_incr_nth)
  then show "rq_snapshots m' = rq_snapshots m \<and>
           map (\<lambda>s. rq_heap m' ! rqs_numReq s) (rq_snapshots m') =
           map (\<lambda>s. rq_heap m ! rqs_numReq s) (rq_snapshots m)"
    by (simp add: m')
qed

lemma Req_Update_inv:
  assumes "Req_inv m" and "ReqPerEndpoint_Update m ps = Inr m'"
  shows "Req_inv m'"
  using assms by (auto simp: ReqPerEndpoint_Update_def Req_inv_def split: sum.splits)

lemma Req_Update_names:
  assumes "ReqPerEndpoint_Update m ps = Inr m'"
  shows "metricName m' = metricName m" "overallName m' = overallName m"
  using assms
  by (auto simp: ReqPerEndpoint_Update_def metricName_def overallName_def fun_eq_iff split: sum.splits)

text \<open>Update and ValueMap keep the counts non-negative; Update adds one to their total.\<close>

lemma Req_Update_nonneg:
  assumes "Req_inv m" and "rq_nonneg m" and "ReqPerEndpoint_Update m ps = Inr m'"
  shows "rq_nonneg m'"
proof -
  from Req_Update_entries [OF assms(1,3)] obtain e where
    E: "rq_entries m' = rq_retained m @ map_put (rq_heap m ! rq_numReq m) e
                              (map_get (rq_heap m ! rq_numReq m) e + 1)" by blast
  from assms(2) have r: "list_all (\<lambda>(k, v). 0 \<le> v) (rq_retained m)"
    and l: "list_all (\<lambda>(k, v). 0 \<le> v) (rq_heap m ! rq_numReq m)"
    by (simp_all add: rq_nonneg_def rq_entries_def)
  from nonneg_map_get [OF l, of e] have "0 \<le> map_get (rq_heap m ! rq_numReq m) e + 1" by simp
  from nonneg_map_put [OF l this] r show ?thesis
    by (simp add: rq_nonneg_def E)
qed

lemma Req_Update_total:
  assumes "Req_inv m" and "ReqPerEndpoint_Update m ps = Inr m'"
  shows "entries_total (rq_entries m') = entries_total (rq_entries m) + 1"
proof -
  from Req_Update_entries [OF assms] obtain e where
    E: "rq_entries m' = rq_retained m @ map_put (rq_heap m ! rq_numReq m) e
                              (map_get (rq_heap m ! rq_numReq m) e + 1)" by blast
  show ?thesis unfolding E by (simp add: entries_total_incr rq_entries_def)
qed

lemma Req_ValueMap_nonneg:
  "Req_inv m \<Longrightarrow> rq_nonneg m \<Longrightarrow> rq_nonneg (fst (ReqPerEndpoint_ValueMap m))"
  by (simp add: rq_nonneg_def Req_ValueMap_entries)

lemma same_report_export:
  assumes "Req_inv m1" "Req_inv m2" "same_report m1 m2"
    and "rq_nonneg m1" "rq_nonneg m2" and "entries_total (rq_entries m1) \<le> 2 ^ 24"
  shows "map_of (snd (ReqPerEndpoint_ValueMap m1)) = map_of (snd (ReqPerEndpoint_ValueMap m2))"
proof (rule gomap_eqI)
  from assms(3) have o: "overallName m1 = overallName m2"
    and t: "entries_total (rq_entries m1) = entries_total (rq_entries m2)"
    and k: "metricName m1 ` fst ` set (rq_entries m1) = metricName m2 ` fst ` set (rq_entries m2)"
    and v: "\<And>n. named_sum (metricName m1) (rq_entries m1) n =
                 named_sum (metricName m2) (rq_entries m2) n"
    unfolding same_report_def by blast+
  from assms(4,5) have n1: "list_all (\<lambda>(k, v). 0 \<le> v) (rq_entries m1)"
    and n2: "list_all (\<lambda>(k, v). 0 \<le> v) (rq_entries m2)"
    by (simp_all add: rq_nonneg_def)
  from assms(6) t have b2: "entries_total (rq_entries m2) \<le> 2 ^ 24" by simp
  show "set (map_keys (snd (ReqPerEndpoint_ValueMap m1))) =
        set (map_keys (snd (ReqPerEndpoint_ValueMap m2)))"
    by (simp only: Req_ValueMap_export [OF assms(1)] Req_ValueMap_export [OF assms(2)]
        req_export_keys k o)
  show "map_get (snd (ReqPerEndpoint_ValueMap m1)) n = map_get (snd (ReqPerEndpoint_ValueMap m2)) n"
    for n
    by (simp only: Req_ValueMap_export [OF assms(1)] Req_ValueMap_export [OF assms(2)]
        req_export_get [OF n1 assms(6)] req_export_get [OF n2 b2] v t o)
qed

lemma same_report_ValueMap:
  assumes "Req_inv m2" "same_report m1 m2"
  shows "same_report m1 (fst (ReqPerEndpoint_ValueMap m2))"
  using assms(2) unfolding same_report_def Req_ValueMap_entries [OF assms(1)] Req_ValueMap_names
  by assumption

lemma same_report_Update:
  assumes "Req_inv m1" "Req_inv m2" "same_report m1 m2"
    and "ReqPerEndpoint_Update m1 ps = Inr m1'"
  shows "\<exists>m2'. ReqPerEndpoint_Update m2 ps = Inr m2' \<and> same_report m1' m2'"
proof -
  from Req_Update_entries [OF assms(1,4)] obtain e where e: "endpointName ps = Inr e"
    and E1: "rq_entries m1' = rq_retained m1 @ map_put (rq_heap m1 ! rq_numReq m1) e
                              (map_get (rq_heap m1 ! rq_numReq m1) e + 1)" by blast
  let ?m2' = "m2 \<lparr> rq_heap := store_incr (rq_heap m2) (rq_numReq m2) e \<rparr>"
  have u2: "ReqPerEndpoint_Update m2 ps = Inr ?m2'"
    by (simp add: ReqPerEndpoint_Update_def e)
  from Req_Update_entries [OF assms(2) u2] e
  have E2: "rq_entries ?m2' = rq_retained m2 @ map_put (rq_heap m2 ! rq_numReq m2) e
                              (map_get (rq_heap m2 ! rq_numReq m2) e + 1)" by simp
  from assms(3) have n: "metricName m1 = metricName m2"
    and o: "overallName m1 = overallName m2"
    and t: "entries_total (rq_entries m1) = entries_total (rq_entries m2)"
    and k: "metricName m1 ` fst ` set (rq_entries m1) = metricName m2 ` fst ` set (rq_entries m2)"
    and v: "\<And>n. named_sum (metricName m1) (rq_entries m1) n =
                 named_sum (metricName m2) (rq_entries m2) n"
    unfolding same_report_def by blast+
  note n1 = Req_Update_names [OF assms(4)] and n2 = Req_Update_names [OF u2]
  have "same_report m1' ?m2'"
    unfolding same_report_def n1 n2 E1 E2
  proof (intro conjI allI)
    show "metricName m1 = metricName m2" by (rule n)
    show "overallName m1 = overallName m2" by (rule o)
    show "entries_total (rq_retained m1 @ map_put (rq_heap m1 ! rq_numReq m1) e
              (map_get (rq_heap m1 ! rq_numReq m1) e + 1)) =
          entries_total (rq_retained m2 @ map_put (rq_heap m2 ! rq_numReq m2) e
              (map_get (rq_heap m2 ! rq_numReq m2) e + 1))"
      using t by (simp add: entries_total_incr rq_entries_def)
    show "metricName m1 ` fst ` set (rq_retained m1 @ map_put (rq_heap m1 ! rq_numReq m1) e
              (map_get (rq_heap m1 ! rq_numReq m1) e + 1)) =
          metricName m2 ` fst ` set (rq_retained m2 @ map_put (rq_heap m2 ! rq_numReq m2) e
              (map_get (rq_heap m2 ! rq_numReq m2) e + 1))"
      using k by (simp only: names_put rq_entries_def n)
    show "named_sum (metricName m1) (rq_retained m1 @ map_put (rq_heap m1 ! rq_numReq m1) e
              (map_get (rq_heap m1 ! rq_numReq m1) e + 1)) x =
          named_sum (metricName m2) (rq_retained m2 @ map_put (rq_heap m2 ! rq_numReq m2) e
              (map_get (rq_heap m2 ! rq_numReq m2) e + 1)) x" for x
      using v [of x] n by (simp add: named_sum_incr rq_entries_def)
  qed
  with u2 show ?thesis by blast
qed


lemma ValueMap_Req:
  "ValueMap (Req m) = (Req (fst (ReqPerEndpoint_ValueMap m)), snd (ReqPerEndpoint_ValueMap m))"
  by (cases "ReqPerEndpoint_ValueMap m") simp

lemma same_report_refl: "same_report m m"
  by (simp add: same_report_def)

lemma each_simulates:
  assumes "Req_inv m1" "Req_inv m2" "same_report m1 m2"
    and "rq_nonneg m1" "rq_nonneg m2"
    and "entries_total (rq_entries m1) + int (length evs) \<le> 2 ^ 24"
    and "Updates (Req m1) evs = Inr (Req m1')"
  shows "\<exists>m2' v. update_export_each (Req m2) prev evs = Inr (Req m2', v) \<and>
           Req_inv m2' \<and> same_report m1' m2' \<and>
           (evs \<noteq> [] \<longrightarrow> map_of v = map_of (snd (ReqPerEndpoint_ValueMap m1')))"
  using assms
proof (induction evs arbitrary: m1 m2 prev)
  case Nil
  then show ?case by simp
next
  case (Cons ev evs)
  obtain now ps where ev: "ev = (now, ps)" by (cases ev)
  from Cons.prems(7) obtain k1 where k1: "ReqPerEndpoint_Update m1 ps = Inr k1"
    and rest: "Updates (Req k1) evs = Inr (Req m1')"
    by (cases "ReqPerEndpoint_Update m1 ps") (auto simp: ev)
  from same_report_Update [OF Cons.prems(1-3) k1] obtain k2
    where k2: "ReqPerEndpoint_Update m2 ps = Inr k2" and sr: "same_report k1 k2" by blast
  have i1: "Req_inv k1" by (rule Req_Update_inv [OF Cons.prems(1) k1])
  have i2: "Req_inv k2" by (rule Req_Update_inv [OF Cons.prems(2) k2])
  have p1: "rq_nonneg k1" by (rule Req_Update_nonneg [OF Cons.prems(1,4) k1])
  have p2: "rq_nonneg k2" by (rule Req_Update_nonneg [OF Cons.prems(2,5) k2])
  have b1: "entries_total (rq_entries k1) + int (length evs) \<le> 2 ^ 24"
    using Cons.prems(6) by (simp add: Req_Update_total [OF Cons.prems(1) k1])
  then have b1': "entries_total (rq_entries k1) \<le> 2 ^ 24" by simp
  let ?k2' = "fst (ReqPerEndpoint_ValueMap k2)"
  let ?v = "snd (ReqPerEndpoint_ValueMap k2)"
  have i2': "Req_inv ?k2'" by (rule Req_ValueMap_inv [OF i2])
  have p2': "rq_nonneg ?k2'" by (rule Req_ValueMap_nonneg [OF i2 p2])
  have sr': "same_report k1 ?k2'" by (rule same_report_ValueMap [OF i2 sr])
  from Cons.IH [OF i1 i2' sr' p1 p2' b1 rest, of ?v] obtain m2' v
    where run: "update_export_each (Req ?k2') ?v evs = Inr (Req m2', v)"
      and inv: "Req_inv m2'" and fin: "same_report m1' m2'"
      and out: "evs \<noteq> [] \<longrightarrow> map_of v = map_of (snd (ReqPerEndpoint_ValueMap m1'))"
    by blast
  have step: "update_export_each (Req m2) prev (ev # evs) = Inr (Req m2', v)"
    using run by (simp add: ev k2 ValueMap_Req del: ValueMap.simps)
  have "map_of v = map_of (snd (ReqPerEndpoint_ValueMap m1'))"
  proof (cases evs)
    case Nil
    with run rest have "v = ?v" "m1' = k1" by simp_all
    then show ?thesis using same_report_export [OF i1 i2 sr p1 p2 b1'] by simp
  next
    case (Cons a list)
    with out show ?thesis by simp
  qed
  with step inv fin show ?case by blast
qed

text \<open>Two states with the same sums stay so along a run of Updates, and export the same
  after it.\<close>

lemma Updates_Req_run:
  assumes "Req_inv m1" "Req_inv m2" "same_report m1 m2" "rq_nonneg m1" "rq_nonneg m2"
    and "Updates (Req m1) evs = Inr (Req m1')"
  shows "\<exists>m2'. Updates (Req m2) evs = Inr (Req m2') \<and> Req_inv m1' \<and> Req_inv m2' \<and>
           same_report m1' m2' \<and> rq_nonneg m1' \<and> rq_nonneg m2' \<and>
           entries_total (rq_entries m1') = entries_total (rq_entries m1) + int (length evs)"
  using assms
proof (induction evs arbitrary: m1 m2)
  case Nil
  then show ?case by simp
next
  case (Cons ev evs)
  obtain now ps where ev: "ev = (now, ps)" by (cases ev)
  from Cons.prems(6) obtain k1 where k1: "ReqPerEndpoint_Update m1 ps = Inr k1"
    and rest: "Updates (Req k1) evs = Inr (Req m1')"
    by (cases "ReqPerEndpoint_Update m1 ps") (auto simp: ev)
  from same_report_Update [OF Cons.prems(1-3) k1] obtain k2
    where k2: "ReqPerEndpoint_Update m2 ps = Inr k2" and sr: "same_report k1 k2" by blast
  have i1: "Req_inv k1" by (rule Req_Update_inv [OF Cons.prems(1) k1])
  have i2: "Req_inv k2" by (rule Req_Update_inv [OF Cons.prems(2) k2])
  have p1: "rq_nonneg k1" by (rule Req_Update_nonneg [OF Cons.prems(1,4) k1])
  have p2: "rq_nonneg k2" by (rule Req_Update_nonneg [OF Cons.prems(2,5) k2])
  from Cons.IH [OF i1 i2 sr p1 p2 rest] obtain m2' where
    run: "Updates (Req k2) evs = Inr (Req m2')" and
    fin: "Req_inv m1'" "Req_inv m2'" "same_report m1' m2'" "rq_nonneg m1'" "rq_nonneg m2'" and
    tot: "entries_total (rq_entries m1') = entries_total (rq_entries k1) + int (length evs)"
    by blast
  have "Updates (Req m2) (ev # evs) = Inr (Req m2')"
    using run by (simp add: ev k2)
  moreover have "entries_total (rq_entries m1') =
      entries_total (rq_entries m1) + int (length (ev # evs))"
    using tot by (simp add: Req_Update_total [OF Cons.prems(1) k1])
  ultimately show ?case using fin by blast
qed

lemma Updates_Req_fail:
  "Updates (Req m1) evs = Inl e \<Longrightarrow> Updates (Req m2) evs = Inl e"
proof (induction evs arbitrary: m1 m2)
  case Nil
  then show ?case by simp
next
  case (Cons ev evs)
  obtain now ps where ev: "ev = (now, ps)" by (cases ev)
  show ?case
  proof (cases "endpointName ps")
    case (Inl e')
    with Cons.prems show ?thesis by (simp add: ev ReqPerEndpoint_Update_def)
  next
    case (Inr en)
    with Cons.prems
    have "Updates (Req (m1 \<lparr> rq_heap := store_incr (rq_heap m1) (rq_numReq m1) en \<rparr>)) evs = Inl e"
      by (simp add: ev ReqPerEndpoint_Update_def)
    from Cons.IH [OF this] Inr show ?thesis
      by (simp add: ev ReqPerEndpoint_Update_def)
  qed
qed

lemma Updates_Req: "Updates (Req m) evs = Inr m' \<Longrightarrow> \<exists>r. m' = Req r"
proof (induction evs arbitrary: m)
  case Nil then show ?case by auto
next
  case (Cons ev evs)
  obtain now ps where ev: "ev = (now, ps)" by (cases ev)
  from Cons show ?case
    by (cases "ReqPerEndpoint_Update m ps") (auto simp: ev)
qed

lemma Updates_fail_each_fails:
  assumes "Req_inv m1" "Req_inv m2" "same_report m1 m2"
    and "Updates (Req m1) evs = Inl e"
  shows "update_export_each (Req m2) prev evs = Inl e"
  using assms
proof (induction evs arbitrary: m1 m2 prev)
  case Nil
  then show ?case by simp
next
  case (Cons ev evs)
  obtain now ps where ev: "ev = (now, ps)" by (cases ev)
  show ?case
  proof (cases "ReqPerEndpoint_Update m1 ps")
    case (Inl e')
    then have "endpointName ps = Inl e'"
      by (simp add: ReqPerEndpoint_Update_def split: sum.splits)
    then have "ReqPerEndpoint_Update m2 ps = Inl e'"
      by (simp add: ReqPerEndpoint_Update_def)
    with Inl Cons.prems(4) show ?thesis by (simp add: ev)
  next
    case (Inr k1)
    with Cons.prems(4) have rest: "Updates (Req k1) evs = Inl e" by (simp add: ev)
    from same_report_Update [OF Cons.prems(1-3) Inr] obtain k2
      where k2: "ReqPerEndpoint_Update m2 ps = Inr k2" and sr: "same_report k1 k2" by blast
    have i1: "Req_inv k1" by (rule Req_Update_inv [OF Cons.prems(1) Inr])
    have i2: "Req_inv k2" by (rule Req_Update_inv [OF Cons.prems(2) k2])
    from Cons.IH [OF i1 Req_ValueMap_inv [OF i2] same_report_ValueMap [OF i2 sr] rest]
    show ?thesis by (simp add: ev k2 ValueMap_Req del: ValueMap.simps)
  qed
qed

lemma export_once_same_report:
  assumes "Req_inv m1" "Req_inv m2" "same_report m1 m2" "rq_nonneg m1" "rq_nonneg m2"
    and "entries_total (rq_entries m1) + int (length evs) \<le> 2 ^ 24"
  shows "map_sum id map_of (export_once (Req m1) evs) =
         map_sum id map_of (export_once (Req m2) evs)"
proof (cases "Updates (Req m1) evs")
  case (Inl e)
  with Updates_Req_fail [OF Inl, of m2] show ?thesis
    by (simp add: export_once_def then_do_def)
next
  case (Inr m')
  from Updates_Req [OF Inr] obtain m1' where m': "m' = Req m1'" by blast
  from Updates_Req_run [OF assms(1-5) Inr [unfolded m']] obtain m2' where
    run: "Updates (Req m2) evs = Inr (Req m2')" and
    fin: "Req_inv m1'" "Req_inv m2'" "same_report m1' m2'" "rq_nonneg m1'" "rq_nonneg m2'" and
    tot: "entries_total (rq_entries m1') = entries_total (rq_entries m1) + int (length evs)"
    by blast
  from tot assms(6) have "entries_total (rq_entries m1') \<le> 2 ^ 24" by simp
  from same_report_export [OF fin this] Inr run show ?thesis
    by (simp add: export_once_def then_do_def m' ValueMap_Req del: ValueMap.simps)
qed

lemma Req_Clear_nonneg: "rq_nonneg m \<Longrightarrow> rq_nonneg (ReqPerEndpoint_Clear m)"
  by (simp add: rq_nonneg_def rq_entries_def rq_retained_def ReqPerEndpoint_Clear_def)

lemma Req_New_nonneg: "rq_nonneg NewReqPerEndpoint"
  by (simp add: rq_nonneg_def rq_entries_def rq_retained_def NewReqPerEndpoint_def
      make_map_def store_put_def map_put_def)

lemma Req_export_after_Clear:
  "snd (ReqPerEndpoint_ValueMap (ReqPerEndpoint_Clear (fst (ReqPerEndpoint_ValueMap m)))) =
     [(overallName m, 0)]"
  unfolding Req_ValueMap_state
  by (simp add: ReqPerEndpoint_Clear_def ReqPerEndpoint_ValueMap_def
      Req_doSnapshot_state req_add_snapshot_def make_map_def overallName_def map_put_def nth_append)

lemma Req_New_inv: "Req_inv NewReqPerEndpoint"
  by (simp add: Req_inv_def NewReqPerEndpoint_def make_map_def)

lemma Req_Clear_inv: "Req_inv m \<Longrightarrow> Req_inv (ReqPerEndpoint_Clear m)"
  by (simp add: Req_inv_def ReqPerEndpoint_Clear_def)

lemma Req_export_has_overall:
  "overallName m \<in> set (map_keys (snd (ReqPerEndpoint_ValueMap m)))"
  by (simp add: ReqPerEndpoint_ValueMap_def Let_def Req_doSnapshot_state overallName_def
      make_map_def split: prod.splits)

lemma Req_export_has_other:
  assumes "Req_inv m" and "unknownEndpoint \<in> fst ` set (rq_entries m)"
  shows "metricName m unknownEndpoint \<in> set (map_keys (snd (ReqPerEndpoint_ValueMap m)))"
  using assms(2) by (simp add: Req_ValueMap_export [OF assms(1)] req_export_keys)

subsection \<open>The error-rate metric\<close>

lemma length_init_loop [simp]:
  "length (foldl (\<lambda>h endpoint. store_put (store_put h a endpoint 0) b endpoint 0) h es) = length h"
  by (induction es arbitrary: h) simp_all

lemma ErrorRate_init_fields [simp]:
  "er_numReq (ErrorRatePerEndpoint_init m) = er_numReq m"
  "er_errorCount (ErrorRatePerEndpoint_init m) = er_errorCount m"
  "er_snapshots (ErrorRatePerEndpoint_init m) = er_snapshots m"
  "length (er_heap (ErrorRatePerEndpoint_init m)) = length (er_heap m)"
  "namePrefix (ErrorRatePerEndpoint_init m) = namePrefix m"
  "namePrefixOverall (ErrorRatePerEndpoint_init m) = namePrefixOverall m"
  "metricUnit (ErrorRatePerEndpoint_init m) = metricUnit m"
  by (simp_all add: ErrorRatePerEndpoint_init_def Let_def)

lemma ErrorRate_New_inv: "ErrorRate_inv NewErrorRatePerEndpoint"
  by (simp add: ErrorRate_inv_def NewErrorRatePerEndpoint_def make_map_def)

lemma ErrorRate_Update_inv:
  "ErrorRate_inv m \<Longrightarrow> ErrorRatePerEndpoint_Update m ps = Inr m' \<Longrightarrow> ErrorRate_inv m'"
  by (auto simp: ErrorRate_inv_def ErrorRatePerEndpoint_Update_def Let_def
      split: sum.splits option.splits val.splits)

lemma ErrorRate_ValueMap_state:
  "fst (ErrorRatePerEndpoint_ValueMap m) = ErrorRatePerEndpoint_doSnapshot m"
  by (simp add: ErrorRatePerEndpoint_ValueMap_def Let_def split: prod.splits)

lemma ErrorRate_ValueMap_inv:
  "ErrorRate_inv m \<Longrightarrow> ErrorRate_inv (fst (ErrorRatePerEndpoint_ValueMap m))"
  by (simp add: ErrorRate_ValueMap_state ErrorRatePerEndpoint_doSnapshot_def ErrorRate_inv_def)

lemma ErrorRate_Clear_inv: "ErrorRate_inv m \<Longrightarrow> ErrorRate_inv (ErrorRatePerEndpoint_Clear m)"
  by (simp add: ErrorRate_inv_def ErrorRatePerEndpoint_Clear_def)

lemma err_add_keys:
  "set (map_keys (fst (foldl (\<lambda>(errorCount, requestCount) endpoint.
              (map_add_to errorCount endpoint (f endpoint),
               map_add_to requestCount endpoint (g endpoint))) (ec, rc) ks))) =
   set (map_keys ec) \<union> set ks"
  by (induction ks arbitrary: ec rc) (auto simp: map_add_to_def)

lemma err_add_snapshot_keys:
  "set (map_keys (fst (err_add_snapshot h acc s))) =
     set (map_keys (fst acc)) \<union> set (map_keys (h ! ers_errorCount s))"
  by (cases acc) (simp add: err_add_snapshot_def err_add_keys)

lemma err_sum_keys:
  "set (map_keys (fst (foldl (err_add_snapshot h) acc snaps))) =
     set (map_keys (fst acc)) \<union> (\<Union>s \<in> set snaps. set (map_keys (h ! ers_errorCount s)))"
  by (induction snaps arbitrary: acc) (auto simp: err_add_snapshot_keys)

lemma err_rate_keys:
  "set (map_keys (fst (foldl (err_rate_step m ec rc) acc ks))) =
     set (map_keys (fst acc)) \<union> metricName m ` set ks"
proof (induction ks arbitrary: acc)
  case Nil
  then show ?case by simp
next
  case (Cons k ks)
  obtain er a b where acc: "acc = (er, a, b)" by (cases acc)
  have "set (map_keys (fst (err_rate_step m ec rc (er, a, b) k))) =
        insert (metricName m k) (set (map_keys er))"
    by (simp add: err_rate_step_def Let_def)
  with Cons.IH [of "err_rate_step m ec rc acc k"] show ?case
    by (auto simp: acc)
qed

lemma ErrorRate_export_keys:
  "set (map_keys (snd (ErrorRatePerEndpoint_ValueMap m))) =
     (let d = ErrorRatePerEndpoint_doSnapshot m
      in insert (overallName m)
           (metricName m ` (\<Union>s \<in> set (er_snapshots d). set (map_keys (er_heap d ! ers_errorCount s)))))"
proof -
  let ?d = "ErrorRatePerEndpoint_doSnapshot m"
  obtain ec rc where sums: "foldl (err_add_snapshot (er_heap ?d)) ([], []) (er_snapshots ?d) = (ec, rc)"
    by (cases "foldl (err_add_snapshot (er_heap ?d)) ([], []) (er_snapshots ?d)")
  obtain er a b where rates: "foldl (err_rate_step ?d ec rc) ([], 0, 0) (map_keys ec) = (er, a, b)"
    by (cases "foldl (err_rate_step ?d ec rc) ([], 0, 0) (map_keys ec)")
  have names: "metricName ?d = metricName m" "overallName ?d = overallName m"
    by (rule ext) (simp_all add: metricName_def overallName_def ErrorRatePerEndpoint_doSnapshot_def)
  from err_sum_keys [of "er_heap ?d" "([], [])" "er_snapshots ?d"]
  have k1: "set (map_keys ec) = (\<Union>s \<in> set (er_snapshots ?d). set (map_keys (er_heap ?d ! ers_errorCount s)))"
    by (simp add: sums)
  from err_rate_keys [of ?d ec rc "([], 0, 0)" "map_keys ec"]
  have k2: "set (map_keys er) = metricName m ` set (map_keys ec)"
    by (simp add: rates names)
  show ?thesis
    by (simp add: ErrorRatePerEndpoint_ValueMap_def Let_def sums rates names k2 k1)
qed

lemma ErrorRate_export_has_other:
  assumes "ErrorRate_inv m"
  shows "metricName m unknownEndpoint \<in> set (map_keys (snd (ErrorRatePerEndpoint_ValueMap m)))"
proof -
  let ?d = "ErrorRatePerEndpoint_doSnapshot m"
  have "\<lparr>ers_numReq = er_numReq m, ers_errorCount = er_errorCount m\<rparr> \<in> set (er_snapshots ?d)"
    by (simp add: ErrorRatePerEndpoint_doSnapshot_def)
  moreover have "unknownEndpoint \<in> set (map_keys (er_heap ?d ! er_errorCount m))"
    using assms
    by (simp add: ErrorRatePerEndpoint_doSnapshot_def ErrorRatePerEndpoint_init_def Let_def
        ErrorRate_inv_def store_put_nth)
  ultimately show ?thesis
    unfolding ErrorRate_export_keys Let_def by force
qed

subsection \<open>The response-time metric\<close>

lemma resp_loop:
  assumes "foldl (resp_step m) ((metrics, s, n), nr, rtm) E = ((metrics', s', n'), nr', rtm')"
  shows "(\<forall>k. map_get nr' k = (if k \<in> fst ` set E then 0 else map_get nr k)) \<and>
         (\<forall>k. map_of rtm' k = (if k \<in> fst ` set E then Some [0] else map_of rtm k)) \<and>
         set (map_keys metrics') = set (map_keys metrics) \<union> metricName m ` fst ` set E \<and>
         (fst ` set E \<subseteq> set (map_keys rtm) \<longrightarrow> map_keys rtm' = map_keys rtm)"
  using assms
proof (induction E arbitrary: metrics s n nr rtm)
  case Nil
  then show ?case by simp
next
  case (Cons x E)
  obtain k vs where x: "x = (k, vs)" by (cases x)
  obtain metrics1 s1 n1 where step: "resp_step m ((metrics, s, n), nr, rtm) (k, vs) =
      ((metrics1, s1, n1), map_put nr k 0, map_put rtm k [0])"
    and keys1: "set (map_keys metrics1) = insert (metricName m k) (set (map_keys metrics))"
    by (simp add: resp_step_def Let_def)
  from Cons.prems have "foldl (resp_step m) ((metrics1, s1, n1), map_put nr k 0, map_put rtm k [0]) E =
      ((metrics', s', n'), nr', rtm')"
    by (simp add: x step)
  from Cons.IH [OF this] keys1 show ?case
    by (auto simp: x map_keys_put_present)
qed

lemma Resp_ValueMap_parts:
  obtains metrics s n nr rtm where
    "foldl (resp_step m) (([], 0, 0), rt_numReq m, responseTimeMap m) (responseTimeMap m) =
       ((metrics, s, n), nr, rtm)"
    "fst (ResponseTimePerEndpoint_ValueMap m) = m \<lparr> rt_numReq := nr, responseTimeMap := rtm \<rparr>"
    "snd (ResponseTimePerEndpoint_ValueMap m) =
       (if n > 0 then map_put (map_put metrics (overallName m) 0) (overallName m)
                     (float32 (s / float32 (of_int n)))
        else map_put metrics (overallName m) 0)"
proof -
  obtain metrics s n nr rtm where
    "foldl (resp_step m) (([], 0, 0), rt_numReq m, responseTimeMap m) (responseTimeMap m) =
       ((metrics, s, n), nr, rtm)"
    by (metis prod_cases3)
  then show ?thesis
    by (intro that [of metrics s n nr rtm]) (simp_all add: ResponseTimePerEndpoint_ValueMap_def Let_def)
qed

lemma Resp_ValueMap_resets:
  assumes "ResponseTime_inv m"
  shows "Resp_is_reset (fst (ResponseTimePerEndpoint_ValueMap m))"
proof -
  obtain metrics s n nr rtm where
    f: "foldl (resp_step m) (([], 0, 0), rt_numReq m, responseTimeMap m) (responseTimeMap m) =
       ((metrics, s, n), nr, rtm)"
    and st: "fst (ResponseTimePerEndpoint_ValueMap m) = m \<lparr> rt_numReq := nr, responseTimeMap := rtm \<rparr>"
    by (rule Resp_ValueMap_parts)
  from resp_loop [OF f]
  have nr: "\<And>k. k \<in> fst ` set (responseTimeMap m) \<Longrightarrow> map_get nr k = 0"
    and rt: "\<And>k. k \<in> fst ` set (responseTimeMap m) \<Longrightarrow> map_of rtm k = Some [0]"
    and keys: "map_keys rtm = map_keys (responseTimeMap m)"
    by (simp_all add: map_keys_def)
  have d: "distinct (map fst rtm)"
    using assms keys by (simp add: ResponseTime_inv_def map_keys_def)
  have "vs = [0] \<and> map_get nr k = 0" if "(k, vs) \<in> set rtm" for k vs
  proof -
    from that have k: "k \<in> fst ` set (responseTimeMap m)"
      using keys by (force simp: map_keys_def dest: arg_cong [where f = set])
    from that d have "map_of rtm k = Some vs" by simp
    with rt [OF k] nr [OF k] show ?thesis by simp
  qed
  then show ?thesis
    by (auto simp: Resp_is_reset_def st list_all_iff)
qed

lemma resp_loop_zero:
  assumes "foldl (resp_step m) ((metrics, 0, 0), nr, rtm) E = ((metrics', s', n'), nr', rtm')"
    and "\<forall>(k, vs) \<in> set E. vs = [0] \<and> map_get nr k = 0"
    and "\<forall>x. map_get metrics x = 0"
  shows "s' = 0 \<and> n' = 0 \<and> (\<forall>x. map_get metrics' x = 0)"
  using assms
proof (induction E arbitrary: metrics nr rtm)
  case Nil
  then show ?case by simp
next
  case (Cons x E)
  obtain k vs where x: "x = (k, vs)" by (cases x)
  from Cons.prems(2) have k: "vs = [0]" "map_get nr k = 0" by (simp_all add: x)
  have step: "resp_step m ((metrics, 0, 0), nr, rtm) (k, vs) =
      ((map_put metrics (metricName m k) 0, 0, 0), map_put nr k 0, map_put rtm k [0])"
    by (simp add: resp_step_def k)
  from Cons.prems(1) have "foldl (resp_step m)
      ((map_put metrics (metricName m k) 0, 0, 0), map_put nr k 0, map_put rtm k [0]) E =
      ((metrics', s', n'), nr', rtm')"
    by (simp add: x step)
  moreover have "\<forall>(k', vs) \<in> set E. vs = [0] \<and> map_get (map_put nr k 0) k' = 0"
    using Cons.prems(2) by auto
  moreover have "\<forall>x. map_get (map_put metrics (metricName m k) 0) x = 0"
    using Cons.prems(3) by simp
  ultimately show ?case by (rule Cons.IH)
qed

lemma Resp_export_when_reset:
  assumes "Resp_is_reset m"
  shows "map_get (snd (ResponseTimePerEndpoint_ValueMap m)) x = 0"
proof -
  obtain metrics s n nr rtm where
    f: "foldl (resp_step m) (([], 0, 0), rt_numReq m, responseTimeMap m) (responseTimeMap m) =
       ((metrics, s, n), nr, rtm)"
    and out: "snd (ResponseTimePerEndpoint_ValueMap m) =
       (if n > 0 then map_put (map_put metrics (overallName m) 0) (overallName m)
                     (float32 (s / float32 (of_int n)))
        else map_put metrics (overallName m) 0)"
    by (rule Resp_ValueMap_parts)
  from assms have "\<forall>(k, vs) \<in> set (responseTimeMap m). vs = [0] \<and> map_get (rt_numReq m) k = 0"
    by (simp add: Resp_is_reset_def list_all_iff)
  from resp_loop_zero [OF f this] have "s = 0" "n = 0" "\<And>x. map_get metrics x = 0"
    by simp_all
  then show ?thesis by (simp add: out)
qed

lemma ResponseTime_New_inv: "ResponseTime_inv NewResponseTimePerEndpoint"
  by (simp add: ResponseTime_inv_def NewResponseTimePerEndpoint_def map_keys_def map_put_def)

lemma ResponseTime_Update_inv:
  "ResponseTime_inv m \<Longrightarrow> ResponseTimePerEndpoint_Update now m ps = Inr m' \<Longrightarrow> ResponseTime_inv m'"
  by (auto simp: ResponseTime_inv_def ResponseTimePerEndpoint_Update_def Let_def distinct_keys_put
      split: sum.splits option.splits val.splits)

lemma Resp_ValueMap_keys:
  "map_keys (responseTimeMap (fst (ResponseTimePerEndpoint_ValueMap m))) = map_keys (responseTimeMap m)"
proof -
  obtain metrics s n nr rtm where
    f: "foldl (resp_step m) (([], 0, 0), rt_numReq m, responseTimeMap m) (responseTimeMap m) =
       ((metrics, s, n), nr, rtm)"
    and st: "fst (ResponseTimePerEndpoint_ValueMap m) = m \<lparr> rt_numReq := nr, responseTimeMap := rtm \<rparr>"
    by (rule Resp_ValueMap_parts)
  from resp_loop [OF f] show ?thesis by (simp add: st map_keys_def)
qed

lemma ResponseTime_ValueMap_inv:
  "ResponseTime_inv m \<Longrightarrow> ResponseTime_inv (fst (ResponseTimePerEndpoint_ValueMap m))"
  by (simp add: ResponseTime_inv_def Resp_ValueMap_keys)

lemma Resp_export_keys:
  "set (map_keys (snd (ResponseTimePerEndpoint_ValueMap m))) =
     insert (overallName m) (metricName m ` set (map_keys (responseTimeMap m)))"
proof -
  obtain metrics s n nr rtm where
    f: "foldl (resp_step m) (([], 0, 0), rt_numReq m, responseTimeMap m) (responseTimeMap m) =
       ((metrics, s, n), nr, rtm)"
    and out: "snd (ResponseTimePerEndpoint_ValueMap m) =
       (if n > 0 then map_put (map_put metrics (overallName m) 0) (overallName m)
                     (float32 (s / float32 (of_int n)))
        else map_put metrics (overallName m) 0)"
    by (rule Resp_ValueMap_parts)
  from resp_loop [OF f]
  have "set (map_keys metrics) = metricName m ` set (map_keys (responseTimeMap m))"
    by (simp add: map_keys_def)
  then show ?thesis by (simp add: out)
qed

subsection \<open>The invariants hold in every state a metric reaches\<close>

lemma metric_inv_Update:
  "metric_inv m \<Longrightarrow> Update m now ps = Inr m' \<Longrightarrow> metric_inv m'"
  by (cases m)
     (auto simp: map_sum_def split: sum.splits
           dest: Req_Update_inv ErrorRate_Update_inv ResponseTime_Update_inv)

lemma metric_inv_ValueMap: "metric_inv m \<Longrightarrow> metric_inv (fst (ValueMap m))"
  by (cases m) (simp_all add: Req_ValueMap_inv ErrorRate_ValueMap_inv ResponseTime_ValueMap_inv)

lemma metric_inv_Clear: "metric_inv m \<Longrightarrow> metric_inv (Clear m)"
  by (cases m) (simp_all add: Req_Clear_inv ErrorRate_Clear_inv ResponseTimePerEndpoint_Clear_def)

lemma metric_inv_New:
  "metric_inv (Req NewReqPerEndpoint)" "metric_inv (Err NewErrorRatePerEndpoint)"
  "metric_inv (Resp NewResponseTimePerEndpoint)"
  by (simp_all add: Req_New_inv ErrorRate_New_inv ResponseTime_New_inv)

subsection \<open>The reporter\<close>

lemma collect_states:
  "fst (foldl collect (done, payload) ms) = done @ map (\<lambda>m. fst (ValueMap m)) ms"
  by (induction ms arbitrary: "done" payload) (simp_all add: collect_def split: prod.splits)

subsection \<open>Exporting after every update or once\<close>

text \<open>
  The claim C1 as stated fails for the response-time metric, which keeps no snapshots: its
  ValueMap resets the sums it reports.  Two requests of 2 ms and 4 ms give a mean of 3 ms
  when exported once, and 4 ms in the last export when exported after each.
\<close>

theorem response_time_export_is_not_cumulative:
  "map_sum id (\<lambda>v. map_of v ''Component/ResponseTimePerEndpoint/log[ms]'')
     (export_once (Resp NewResponseTimePerEndpoint)
        [(2000000, DefaultReqParams 0 ''log''), (4000000, DefaultReqParams 0 ''log'')])
     = Inr (Some 3) \<and>
   map_sum id (\<lambda>v. map_of v ''Component/ResponseTimePerEndpoint/log[ms]'')
     (export_after_each (Resp NewResponseTimePerEndpoint)
        [(2000000, DefaultReqParams 0 ''log''), (4000000, DefaultReqParams 0 ''log'')])
     = Inr (Some 4) \<and>
   map_sum id map_of
     (export_after_each (Resp NewResponseTimePerEndpoint)
        [(2000000, DefaultReqParams 0 ''log''), (4000000, DefaultReqParams 0 ''log'')]) \<noteq>
   map_sum id map_of
     (export_once (Resp NewResponseTimePerEndpoint)
        [(2000000, DefaultReqParams 0 ''log''), (4000000, DefaultReqParams 0 ''log'')])"
proof -
  let ?evs = "[(2000000, DefaultReqParams 0 ''log''), (4000000, DefaultReqParams 0 ''log'')]"
  let ?name = "''Component/ResponseTimePerEndpoint/log[ms]''"
  let ?once = "export_once (Resp NewResponseTimePerEndpoint) ?evs"
  let ?each = "export_after_each (Resp NewResponseTimePerEndpoint) ?evs"
  have once: "map_sum id (\<lambda>v. map_of v ?name) ?once = Inr (Some 3)"
    by (simp add: model_defs)
  have each: "map_sum id (\<lambda>v. map_of v ?name) ?each = Inr (Some 4)"
    by (simp add: model_defs)
  have "map_sum id map_of ?each \<noteq> map_sum id map_of ?once"
  proof
    assume "map_sum id map_of ?each = map_sum id map_of ?once"
    then have "map_sum id (\<lambda>f. f ?name) (map_sum id map_of ?each) =
               map_sum id (\<lambda>f. f ?name) (map_sum id map_of ?once)"
      by (rule arg_cong)
    then have "map_sum id (\<lambda>v. map_of v ?name) ?each = map_sum id (\<lambda>v. map_of v ?name) ?once"
      by (simp add: sum.map_comp comp_def id_def)
    with once each show False by simp
  qed
  with once each show ?thesis by blast
qed

text \<open>
  Nor does it hold for the request-count metric without a bound: the exported sums are
  \<^verbatim>\<open>float32\<close>.  A metric that has counted \<open>2^24\<close> requests for one endpoint (a state that
  \<open>2^24\<close> Updates reach) and sees two more exports \<open>16777218\<close> when exported once and
  \<open>16777216\<close> in the last export when exported after each: adding \<open>1\<close> to \<open>16777216\<close> rounds
  back to \<open>16777216\<close>.
\<close>

lemma request_count_run:
  "Updates (Req (NewReqPerEndpoint \<lparr> rq_heap := [[(''other'', 0), (''log'', k)]] \<rparr>))
     (replicate n (0, request ''log'' 200)) =
   Inr (Req (NewReqPerEndpoint \<lparr> rq_heap := [[(''other'', 0), (''log'', k + int n)]] \<rparr>))"
proof (induction n arbitrary: k)
  case 0
  then show ?case by simp
next
  case (Suc n)
  have "Update (Req (NewReqPerEndpoint \<lparr> rq_heap := [[(''other'', 0), (''log'', k)]] \<rparr>)) 0
          (request ''log'' 200) =
        Inr (Req (NewReqPerEndpoint \<lparr> rq_heap := [[(''other'', 0), (''log'', k + 1)]] \<rparr>))"
    by (simp add: model_defs)
  with Suc [of "k + 1"] show ?case by (simp add: add.assoc)
qed

lemma request_count_reaches:
  "Updates (Req NewReqPerEndpoint) (replicate (Suc n) (0, request ''log'' 200)) =
   Inr (Req (NewReqPerEndpoint \<lparr> rq_heap := [[(''other'', 0), (''log'', 1 + int n)]] \<rparr>))"
proof -
  have "Update (Req NewReqPerEndpoint) 0 (request ''log'' 200) =
        Inr (Req (NewReqPerEndpoint \<lparr> rq_heap := [[(''other'', 0), (''log'', 1)]] \<rparr>))"
    by (simp add: model_defs)
  with request_count_run [of 1 n] show ?thesis by simp
qed

lemma request_count_export_rounds:
  "Updates (Req NewReqPerEndpoint) (replicate (Suc 16777215) (0, request ''log'' 200)) =
     Inr (Req (NewReqPerEndpoint \<lparr> rq_heap := [[(''other'', 0), (''log'', 16777216)]] \<rparr>)) \<and>
   map_sum id (\<lambda>v. map_of v ''Component/ReqPerEndpoint/log[requests]'')
     (export_once (Req (NewReqPerEndpoint \<lparr> rq_heap := [[(''other'', 0), (''log'', 16777216)]] \<rparr>))
        [(0, request ''log'' 200), (0, request ''log'' 200)]) = Inr (Some 16777218) \<and>
   map_sum id (\<lambda>v. map_of v ''Component/ReqPerEndpoint/log[requests]'')
     (export_after_each
        (Req (NewReqPerEndpoint \<lparr> rq_heap := [[(''other'', 0), (''log'', 16777216)]] \<rparr>))
        [(0, request ''log'' 200), (0, request ''log'' 200)]) = Inr (Some 16777216)"
proof (intro conjI)
  show "Updates (Req NewReqPerEndpoint) (replicate (Suc 16777215) (0, request ''log'' 200)) =
     Inr (Req (NewReqPerEndpoint \<lparr> rq_heap := [[(''other'', 0), (''log'', 16777216)]] \<rparr>))"
    using request_count_reaches [of 16777215] by simp
  show "map_sum id (\<lambda>v. map_of v ''Component/ReqPerEndpoint/log[requests]'')
     (export_once (Req (NewReqPerEndpoint \<lparr> rq_heap := [[(''other'', 0), (''log'', 16777216)]] \<rparr>))
        [(0, request ''log'' 200), (0, request ''log'' 200)]) = Inr (Some 16777218)"
    by (simp add: model_defs float32_16777218)
  show "map_sum id (\<lambda>v. map_of v ''Component/ReqPerEndpoint/log[requests]'')
     (export_after_each
        (Req (NewReqPerEndpoint \<lparr> rq_heap := [[(''other'', 0), (''log'', 16777216)]] \<rparr>))
        [(0, request ''log'' 200), (0, request ''log'' 200)]) = Inr (Some 16777216)"
    by (simp add: model_defs float32_16777217)
qed

text \<open>
  C1 (amended).  For the request-count metric, in every state in which no count is negative,
  and for every non-empty run of Update calls with no Clear that brings the number of
  requests counted in all to at most \<open>2^24 = 16777216\<close>: exporting after every Update and
  exporting once after the last give the same final export, entry by entry (and the same
  error if an Update of the run fails).
\<close>

theorem request_count_export_is_cumulative:
  assumes "Req_inv m" and "rq_nonneg m" and "evs \<noteq> []"
    and "entries_total (rq_entries m) + int (length evs) \<le> 2 ^ 24"
  shows "map_sum id map_of (export_after_each (Req m) evs) =
         map_sum id map_of (export_once (Req m) evs)"
proof (cases "Updates (Req m) evs")
  case (Inl e)
  from Updates_fail_each_fails [OF assms(1) assms(1) same_report_refl Inl, of "[]"] Inl
  show ?thesis by (simp add: export_after_each_def export_once_def then_do_def)
next
  case (Inr m')
  from Updates_Req [OF Inr] obtain r where r: "m' = Req r" by blast
  from each_simulates [OF assms(1) assms(1) same_report_refl assms(2) assms(2) assms(4)
      Inr [unfolded r], of "[]"] assms(3)
  obtain m2' v where "update_export_each (Req m) [] evs = Inr (Req m2', v)"
    "map_of v = map_of (snd (ReqPerEndpoint_ValueMap r))" by blast
  with Inr r show ?thesis
    by (simp add: export_after_each_def export_once_def then_do_def)
qed

theorem request_count_export_is_cumulative_witness:
  "Req_inv NewReqPerEndpoint \<and> rq_nonneg NewReqPerEndpoint \<and>
   [(0, request ''log'' 200), (0, request ''log'' 200)] \<noteq> [] \<and>
   entries_total (rq_entries NewReqPerEndpoint) +
     int (length [(0 :: int, request ''log'' 200), (0, request ''log'' 200)]) \<le> 2 ^ 24 \<and>
   map_sum id (\<lambda>v. map_of v ''Component/ReqPerEndpoint/log[requests]'')
     (export_once (Req NewReqPerEndpoint)
        [(0, request ''log'' 200), (0, request ''log'' 200)]) = Inr (Some 2) \<and>
   map_sum id map_of
     (export_after_each (Req NewReqPerEndpoint)
        [(0, request ''log'' 200), (0, request ''log'' 200)]) =
   map_sum id map_of
     (export_once (Req NewReqPerEndpoint)
        [(0, request ''log'' 200), (0, request ''log'' 200)])"
proof -
  have ne: "[(0::int, request ''log'' 200), (0, request ''log'' 200)] \<noteq> []"
    by simp
  have bound: "entries_total (rq_entries NewReqPerEndpoint) +
     int (length [(0 :: int, request ''log'' 200), (0, request ''log'' 200)]) \<le> 2 ^ 24"
    by (simp add: entries_total_def rq_entries_def rq_retained_def NewReqPerEndpoint_def
        make_map_def store_put_def map_put_def)
  have once: "map_sum id (\<lambda>v. map_of v ''Component/ReqPerEndpoint/log[requests]'')
     (export_once (Req NewReqPerEndpoint)
        [(0, request ''log'' 200), (0, request ''log'' 200)]) = Inr (Some 2)"
    by (simp add: model_defs)
  from request_count_export_is_cumulative [OF Req_New_inv Req_New_nonneg ne bound]
    Req_New_inv Req_New_nonneg ne bound once
  show ?thesis by blast
qed

subsection \<open>The reporter and Clear\<close>

text \<open>
  The claim C2 as stated fails twice.  After a cycle whose delivery was answered with status
  200 the request-count metric still retains its snapshot, and the next cycle sends the
  request of the first one again: nothing was cleared.  And after a cycle whose delivery was
  answered with status 500 the response-time metric, which retains nothing, has reset its
  sums: the 2 ms of the first payload are 0 in the next.
\<close>

theorem reporter_neither_clears_nor_redelivers:
  "then_do (Update (Req NewReqPerEndpoint) 0 (request ''log'' 200)) (\<lambda>m.
     let (r1, payload1, log1) = sendMetrics \<lparr> Metrics = [m] \<rparr> (Response 200);
         (r2, payload2, log2) = sendMetrics r1 (Response 200)
     in Inr (Metrics r1 = map Clear (Metrics r1), log1,
             map_of payload1 ''Component/ReqPerEndpoint/log[requests]'',
             map_of payload2 ''Component/ReqPerEndpoint/log[requests]''))
   = Inr (False, [], Some 1, Some 1) \<and>
   then_do (Update (Resp NewResponseTimePerEndpoint) 2000000 (DefaultReqParams 0 ''log'')) (\<lambda>m.
     let (r1, payload1, log1) = sendMetrics \<lparr> Metrics = [m] \<rparr> (Response 500);
         (r2, payload2, log2) = sendMetrics r1 (Response 200)
     in Inr (log1,
             map_of payload1 ''Component/ResponseTimePerEndpoint/log[ms]'',
             map_of payload2 ''Component/ResponseTimePerEndpoint/log[ms]''))
   = Inr ([ErrorStatusCode 500], Some 2, Some 0)"
proof (intro conjI)
  show "then_do (Update (Req NewReqPerEndpoint) 0 (request ''log'' 200)) (\<lambda>m.
     let (r1, payload1, log1) = sendMetrics \<lparr> Metrics = [m] \<rparr> (Response 200);
         (r2, payload2, log2) = sendMetrics r1 (Response 200)
     in Inr (Metrics r1 = map Clear (Metrics r1), log1,
             map_of payload1 ''Component/ReqPerEndpoint/log[requests]'',
             map_of payload2 ''Component/ReqPerEndpoint/log[requests]''))
   = Inr (False, [], Some 1, Some 1)"
    by (simp add: model_defs)
  show "then_do (Update (Resp NewResponseTimePerEndpoint) 2000000 (DefaultReqParams 0 ''log'')) (\<lambda>m.
     let (r1, payload1, log1) = sendMetrics \<lparr> Metrics = [m] \<rparr> (Response 500);
         (r2, payload2, log2) = sendMetrics r1 (Response 200)
     in Inr (log1,
             map_of payload1 ''Component/ResponseTimePerEndpoint/log[ms]'',
             map_of payload2 ''Component/ResponseTimePerEndpoint/log[ms]''))
   = Inr ([ErrorStatusCode 500], Some 2, Some 0)"
    by (simp add: model_defs)
qed

text \<open>
  C2 (amended).  In every dispatch cycle, whatever the outcome of the delivery (status 200,
  another status, a transport error), the reporter calls ValueMap on every metric and never
  Clear: each metric is afterwards in the state its ValueMap leaves.  For a request-count
  metric of the reporter nothing it has counted is discarded by the cycle, and all of it is
  included again in the next cycle's export: with no Update in between the metric exports
  the very same mapping again, and after any further Updates (that bring the number of
  requests counted in all to at most \<open>2^24\<close>) it exports, entry by entry, what it would have
  exported had the cycle not taken place.
\<close>

theorem reporter_never_clears:
  "fst (sendMetrics reporter d) =
     reporter \<lparr> Metrics := map (\<lambda>m. fst (ValueMap m)) (Metrics reporter) \<rparr> \<and>
   (i < length (Metrics reporter) \<and> Metrics reporter ! i = Req r \<and> Req_inv r \<longrightarrow>
      snd (ValueMap (Metrics (fst (sendMetrics reporter d)) ! i)) = snd (ValueMap (Req r)) \<and>
      (rq_nonneg r \<and> entries_total (rq_entries r) + int (length evs) \<le> 2 ^ 24 \<longrightarrow>
         map_sum id map_of (export_once (Metrics (fst (sendMetrics reporter d)) ! i) evs) =
         map_sum id map_of (export_once (Req r) evs)))"
proof (intro conjI impI)
  show state: "fst (sendMetrics reporter d) =
      reporter \<lparr> Metrics := map (\<lambda>m. fst (ValueMap m)) (Metrics reporter) \<rparr>"
    using collect_states [of "[]" "[]" "Metrics reporter"]
    by (cases "foldl collect ([], []) (Metrics reporter)") (simp add: sendMetrics_def)
  assume h: "i < length (Metrics reporter) \<and> Metrics reporter ! i = Req r \<and> Req_inv r"
  let ?r' = "fst (ReqPerEndpoint_ValueMap r)"
  from h have inv: "Req_inv r" by simp
  from h have after: "Metrics (fst (sendMetrics reporter d)) ! i = Req ?r'"
    by (simp add: state ValueMap_Req del: ValueMap.simps)
  have inv': "Req_inv ?r'" by (rule Req_ValueMap_inv [OF inv])
  have "snd (ReqPerEndpoint_ValueMap ?r') = snd (ReqPerEndpoint_ValueMap r)"
    by (simp only: Req_ValueMap_export [OF inv'] Req_ValueMap_export [OF inv]
        Req_ValueMap_entries [OF inv] Req_ValueMap_names)
  then show "snd (ValueMap (Metrics (fst (sendMetrics reporter d)) ! i)) = snd (ValueMap (Req r))"
    by (simp add: after ValueMap_Req del: ValueMap.simps)
  assume b: "rq_nonneg r \<and> entries_total (rq_entries r) + int (length evs) \<le> 2 ^ 24"
  then have p: "rq_nonneg r" and t: "entries_total (rq_entries r) + int (length evs) \<le> 2 ^ 24"
    by simp_all
  have sr: "same_report r ?r'"
    by (rule same_report_ValueMap [OF inv same_report_refl])
  from export_once_same_report [OF inv inv' sr p Req_ValueMap_nonneg [OF inv p] t]
  show "map_sum id map_of (export_once (Metrics (fst (sendMetrics reporter d)) ! i) evs) =
        map_sum id map_of (export_once (Req r) evs)"
    by (simp add: after)
qed

theorem reporter_never_clears_witness:
  "Update (Req NewReqPerEndpoint) 0 (request ''log'' 200) =
     Inr (Req (NewReqPerEndpoint \<lparr> rq_heap := [[(''other'', 0), (''log'', 1)]] \<rparr>)) \<and>
   (0 :: nat) < length (Metrics \<lparr> Metrics =
       [Req (NewReqPerEndpoint \<lparr> rq_heap := [[(''other'', 0), (''log'', 1)]] \<rparr>)] \<rparr>) \<and>
   Req_inv (NewReqPerEndpoint \<lparr> rq_heap := [[(''other'', 0), (''log'', 1)]] \<rparr>) \<and>
   rq_nonneg (NewReqPerEndpoint \<lparr> rq_heap := [[(''other'', 0), (''log'', 1)]] \<rparr>) \<and>
   entries_total (rq_entries (NewReqPerEndpoint \<lparr> rq_heap := [[(''other'', 0), (''log'', 1)]] \<rparr>))
     + int (length [(0 :: int, request ''log'' 200)]) \<le> 2 ^ 24 \<and>
   map_of (snd (ValueMap (Req (NewReqPerEndpoint \<lparr> rq_heap := [[(''other'', 0), (''log'', 1)]] \<rparr>))))
     ''Component/ReqPerEndpoint/log[requests]'' = Some 1 \<and>
   map_sum id (\<lambda>v. map_of v ''Component/ReqPerEndpoint/log[requests]'')
     (export_once (Req (NewReqPerEndpoint \<lparr> rq_heap := [[(''other'', 0), (''log'', 1)]] \<rparr>))
        [(0, request ''log'' 200)]) = Inr (Some 2) \<and>
   snd (ValueMap (Metrics (fst (sendMetrics \<lparr> Metrics =
       [Req (NewReqPerEndpoint \<lparr> rq_heap := [[(''other'', 0), (''log'', 1)]] \<rparr>)] \<rparr>
       (Response 500))) ! 0)) =
   snd (ValueMap (Req (NewReqPerEndpoint \<lparr> rq_heap := [[(''other'', 0), (''log'', 1)]] \<rparr>))) \<and>
   map_sum id map_of (export_once (Metrics (fst (sendMetrics \<lparr> Metrics =
       [Req (NewReqPerEndpoint \<lparr> rq_heap := [[(''other'', 0), (''log'', 1)]] \<rparr>)] \<rparr>
       (Response 500))) ! 0) [(0, request ''log'' 200)]) =
   map_sum id map_of
     (export_once (Req (NewReqPerEndpoint \<lparr> rq_heap := [[(''other'', 0), (''log'', 1)]] \<rparr>))
        [(0, request ''log'' 200)])"
proof -
  let ?r = "NewReqPerEndpoint \<lparr> rq_heap := [[(''other'', 0), (''log'', 1)]] \<rparr>"
  let ?evs = "[(0 :: int, request ''log'' 200)]"
  have reach: "Update (Req NewReqPerEndpoint) 0 (request ''log'' 200) = Inr (Req ?r)"
    by (simp add: model_defs)
  have len: "(0 :: nat) < length (Metrics \<lparr> Metrics = [Req ?r] \<rparr>)"
    by simp
  have at: "Metrics \<lparr> Metrics = [Req ?r] \<rparr> ! 0 = Req ?r"
    by simp
  have inv: "Req_inv ?r"
    by (simp add: Req_inv_def NewReqPerEndpoint_def make_map_def)
  have pos: "rq_nonneg ?r"
    by (simp add: rq_nonneg_def rq_entries_def rq_retained_def NewReqPerEndpoint_def make_map_def)
  have bound: "entries_total (rq_entries ?r) + int (length ?evs) \<le> 2 ^ 24"
    by (simp add: entries_total_def rq_entries_def rq_retained_def NewReqPerEndpoint_def
        make_map_def)
  have first: "map_of (snd (ValueMap (Req ?r))) ''Component/ReqPerEndpoint/log[requests]'' = Some 1"
    by (simp add: model_defs)
  have later: "map_sum id (\<lambda>v. map_of v ''Component/ReqPerEndpoint/log[requests]'')
     (export_once (Req ?r) ?evs) = Inr (Some 2)"
    by (simp add: model_defs)
  from reporter_never_clears [of "\<lparr> Metrics = [Req ?r] \<rparr>" "Response 500" 0 ?r ?evs]
    len at inv pos bound
  have "snd (ValueMap (Metrics (fst (sendMetrics \<lparr> Metrics = [Req ?r] \<rparr> (Response 500))) ! 0)) =
          snd (ValueMap (Req ?r)) \<and>
        map_sum id map_of (export_once
          (Metrics (fst (sendMetrics \<lparr> Metrics = [Req ?r] \<rparr> (Response 500))) ! 0) ?evs) =
        map_sum id map_of (export_once (Req ?r) ?evs)"
    by blast
  with reach len inv pos bound first later show ?thesis by blast
qed

subsection \<open>Export after Clear\<close>

text \<open>
  The claim C3 as stated fails: Clear drops the retained snapshots and leaves the live map,
  so an Update made after the last export is still reported after Clear.
\<close>

theorem clear_keeps_pending_updates:
  "then_do (Update (Req NewReqPerEndpoint) 0 (request ''log'' 200)) (\<lambda>m1.
     let (m2, first) = ValueMap m1 in
     then_do (Update m2 0 (request ''log'' 200)) (\<lambda>m3.
       Inr (map_of first ''Component/ReqPerEndpoint/log[requests]'',
            map_of (snd (ValueMap (Clear m3))) ''Component/ReqPerEndpoint/log[requests]'')))
   = Inr (Some 1, Some 1)"
  by (simp add: model_defs)

text \<open>
  C3 (amended).  For the request-count and the response-time metric, in every state: after
  an export, a Clear and no Update, the next export reads \<open>0\<close> at every name.
\<close>

theorem export_after_clear_is_zero:
  "(\<forall>x. map_get (snd (ValueMap (Clear (fst (ValueMap (Req r)))))) x = 0) \<and>
   (ResponseTime_inv t \<longrightarrow>
      (\<forall>x. map_get (snd (ValueMap (Clear (fst (ValueMap (Resp t)))))) x = 0))"
proof (intro conjI allI impI)
  fix x
  have "ValueMap (Clear (fst (ValueMap (Req r)))) =
        map_prod Req id
          (ReqPerEndpoint_ValueMap (ReqPerEndpoint_Clear (fst (ReqPerEndpoint_ValueMap r))))"
    by (cases "ReqPerEndpoint_ValueMap r") simp
  then show "map_get (snd (ValueMap (Clear (fst (ValueMap (Req r)))))) x = 0"
    by (simp add: Req_export_after_Clear map_get_def)
next
  fix x
  assume inv: "ResponseTime_inv t"
  have "ValueMap (Clear (fst (ValueMap (Resp t)))) =
        map_prod Resp id
          (ResponseTimePerEndpoint_ValueMap (fst (ResponseTimePerEndpoint_ValueMap t)))"
    by (cases "ResponseTimePerEndpoint_ValueMap t") (simp add: ResponseTimePerEndpoint_Clear_def)
  then show "map_get (snd (ValueMap (Clear (fst (ValueMap (Resp t)))))) x = 0"
    by (simp add: Resp_export_when_reset [OF Resp_ValueMap_resets [OF inv]])
qed

theorem export_after_clear_is_zero_witness:
  "Updates (Resp NewResponseTimePerEndpoint)
      [(2000000, DefaultReqParams 0 ''log''), (4000000, DefaultReqParams 0 ''log'')] =
     Inr (Resp (NewResponseTimePerEndpoint
         \<lparr> rt_numReq := [(''log'', 2)],
           responseTimeMap := [(''other'', [0]), (''log'', [2, 4])] \<rparr>)) \<and>
   ResponseTime_inv (NewResponseTimePerEndpoint
         \<lparr> rt_numReq := [(''log'', 2)],
           responseTimeMap := [(''other'', [0]), (''log'', [2, 4])] \<rparr>) \<and>
   map_get (snd (ValueMap (Resp (NewResponseTimePerEndpoint
         \<lparr> rt_numReq := [(''log'', 2)],
           responseTimeMap := [(''other'', [0]), (''log'', [2, 4])] \<rparr>))))
      ''Component/ResponseTimePerEndpoint/log[ms]'' = 3 \<and>
   (\<forall>x. map_get (snd (ValueMap (Clear (fst (ValueMap (Resp (NewResponseTimePerEndpoint
         \<lparr> rt_numReq := [(''log'', 2)],
           responseTimeMap := [(''other'', [0]), (''log'', [2, 4])] \<rparr>))))))) x = 0) \<and>
   (\<forall>x. map_get (snd (ValueMap (Clear (fst (ValueMap (Req NewReqPerEndpoint)))))) x = 0)"
proof -
  let ?t = "NewResponseTimePerEndpoint
         \<lparr> rt_numReq := [(''log'', 2)],
           responseTimeMap := [(''other'', [0]), (''log'', [2, 4])] \<rparr>"
  have run: "Updates (Resp NewResponseTimePerEndpoint)
      [(2000000, DefaultReqParams 0 ''log''), (4000000, DefaultReqParams 0 ''log'')] =
     Inr (Resp ?t)"
    by (simp add: model_defs)
  have inv: "ResponseTime_inv ?t"
    by (simp add: ResponseTime_inv_def map_keys_def unknownEndpoint_def)
  have before: "map_get (snd (ValueMap (Resp ?t))) ''Component/ResponseTimePerEndpoint/log[ms]'' = 3"
    by (simp add: model_defs)
  from export_after_clear_is_zero [of NewReqPerEndpoint ?t] inv
  have "(\<forall>x. map_get (snd (ValueMap (Clear (fst (ValueMap (Resp ?t)))))) x = 0) \<and>
        (\<forall>x. map_get (snd (ValueMap (Clear (fst (ValueMap (Req NewReqPerEndpoint)))))) x = 0)"
    by blast
  with run inv before show ?thesis by blast
qed

subsection \<open>Snapshots of the error-rate metric share the live maps\<close>

text \<open>
  C4.  A snapshot, once retained, is to keep the counts it was taken with.  The
  request-count metric does that (\<open>Req_snapshots_kept\<close> above).  The error-rate metric's
  \<^verbatim>\<open>doSnapshot\<close> stores the references of the live maps and \<^verbatim>\<open>init\<close> makes no new ones,
  so the next Update writes into the retained snapshot: taken with one request for
  \<^verbatim>\<open>"log"\<close>, its \<^verbatim>\<open>numReq\<close> holds two after one more Update.
\<close>

theorem error_rate_snapshot_is_overwritten:
  "then_do (ErrorRatePerEndpoint_Update NewErrorRatePerEndpoint (request ''log'' 404)) (\<lambda>m0.
     let m1 = fst (ErrorRatePerEndpoint_ValueMap m0) in
     then_do (ErrorRatePerEndpoint_Update m1 (request ''log'' 200)) (\<lambda>m2.
       Inr (map_get (fst (ErrorRate_snapshot_contents m1 0)) ''log'',
            map_get (fst (ErrorRate_snapshot_contents m2 0)) ''log'')))
   = Inr (1, 2)"
  by (simp add: model_defs)

subsection \<open>A missing status code\<close>

text \<open>The response-time metric returns an error when the start time is missing, and has
  changed nothing by then.\<close>

lemma response_time_update_without_start_time:
  "ps ''reqStartTime'' = None \<Longrightarrow>
   ResponseTimePerEndpoint_Update now m ps = Inl (Error ''reqStart time should be time.Time'')"
  by (simp add: ResponseTimePerEndpoint_Update_def)

text \<open>
  C5.  An Update whose bag lacks a required attribute is to return an error.  The
  response-time metric does so for its start time; the error-rate metric asserts the type
  of \<^verbatim>\<open>params["statusCode"]\<close> without looking whether the key is there, and the bag of
  \<^verbatim>\<open>DefaultReqParams\<close>, which has no status code yet, makes it panic.
\<close>

theorem error_rate_update_without_status_panics:
  "ErrorRatePerEndpoint_Update m (DefaultReqParams now endpoint) = Inl PanicInterfaceConversion"
  by (simp add: model_defs)

subsection \<open>The error-rate scenario\<close>

text \<open>
  For an endpoint other than the sentinel \<^verbatim>\<open>"other"\<close> (the repository's test uses
  \<^verbatim>\<open>"log"\<close>) the second export of the scenario reads \<open>1/4\<close>: the two retained snapshots refer
  to the live maps, the sums are 2 errors over 8 requests.
\<close>

lemma error_rate_scenario_named_endpoint:
  assumes "endpoint \<noteq> unknownEndpoint"
    and "is_request p1 endpoint 404" and "is_request p2 endpoint 200"
    and "is_request p3 endpoint 200" and "is_request p4 endpoint 200"
  shows "then_do (ErrorRatePerEndpoint_Update NewErrorRatePerEndpoint p1) (\<lambda>m.
         then_do (ErrorRatePerEndpoint_Update m p2) (\<lambda>m.
         then_do (ErrorRatePerEndpoint_Update (fst (ErrorRatePerEndpoint_ValueMap m)) p3) (\<lambda>m.
         then_do (ErrorRatePerEndpoint_Update m p4) (\<lambda>m.
           Inr (map_of (snd (ErrorRatePerEndpoint_ValueMap m)) (metricName m endpoint))))))
       = Inr (Some (1 / 4))"
  using assms by (simp add: model_defs float32_quarter)

text \<open>
  C6.  A fresh error-rate metric sees, for one endpoint, the status codes 404 and 200, is
  exported, sees 200 and 200, and is exported again with no Clear in between; the second
  export's entry for the endpoint is to be \<open>1/4\<close> (and the first \<open>1/2\<close>).  For the endpoint
  \<^verbatim>\<open>"other"\<close>, named in the bags or meant by bags that name no endpoint, both exports read
  \<open>0\<close>: \<^verbatim>\<open>doSnapshot\<close> retains the references of the live maps and \<^verbatim>\<open>init\<close> then writes zeros
  for \<^verbatim>\<open>"other"\<close> into these very maps, so the counts are gone before ValueMap sums them.
\<close>

theorem error_rate_scenario_loses_other:
  "then_do (ErrorRatePerEndpoint_Update NewErrorRatePerEndpoint (request ''other'' 404)) (\<lambda>m.
   then_do (ErrorRatePerEndpoint_Update m (request ''other'' 200)) (\<lambda>m.
     let (m, first) = ErrorRatePerEndpoint_ValueMap m in
   then_do (ErrorRatePerEndpoint_Update m (request ''other'' 200)) (\<lambda>m.
   then_do (ErrorRatePerEndpoint_Update m (request ''other'' 200)) (\<lambda>m.
     Inr (map_of first (metricName m ''other''),
          map_of (snd (ErrorRatePerEndpoint_ValueMap m)) (metricName m ''other''))))))
   = Inr (Some 0, Some 0) \<and>
   then_do (ErrorRatePerEndpoint_Update NewErrorRatePerEndpoint
              (CollectParamsOnReqEnd Map.empty 404)) (\<lambda>m.
   then_do (ErrorRatePerEndpoint_Update m (CollectParamsOnReqEnd Map.empty 200)) (\<lambda>m.
     let (m, first) = ErrorRatePerEndpoint_ValueMap m in
   then_do (ErrorRatePerEndpoint_Update m (CollectParamsOnReqEnd Map.empty 200)) (\<lambda>m.
   then_do (ErrorRatePerEndpoint_Update m (CollectParamsOnReqEnd Map.empty 200)) (\<lambda>m.
     Inr (map_of first (metricName m unknownEndpoint),
          map_of (snd (ErrorRatePerEndpoint_ValueMap m)) (metricName m unknownEndpoint))))))
   = Inr (Some 0, Some 0)"
  by (simp add: model_defs)

subsection \<open>What Update counts\<close>

text \<open>
  C7.  An Update of the error-rate metric whose bag carries an integer status code adds one
  to the request count of the endpoint the bag resolves to, adds one to its error count if
  and only if the status code is at least 400, and leaves the counts of every other
  endpoint as they were.
\<close>

theorem error_rate_update_counts:
  assumes "ErrorRate_inv m" and "ps ''statusCode'' = Some (VInt code)"
    and "endpointName ps = Inr endpoint"
  shows "\<exists>m'. ErrorRatePerEndpoint_Update m ps = Inr m' \<and>
           er_requests m' endpoint = er_requests m endpoint + 1 \<and>
           er_errors m' endpoint = er_errors m endpoint + (if code \<ge> 400 then 1 else 0) \<and>
           (\<forall>e. e \<noteq> endpoint \<longrightarrow>
                er_requests m' e = er_requests m e \<and> er_errors m' e = er_errors m e)"
  using assms
  by (simp add: ErrorRatePerEndpoint_Update_def ErrorRate_inv_def er_requests_def er_errors_def
      store_get_incr)

theorem error_rate_update_counts_witness:
  "ErrorRate_inv NewErrorRatePerEndpoint \<and>
   request ''log'' 404 ''statusCode'' = Some (VInt 404) \<and>
   endpointName (request ''log'' 404) = Inr ''log'' \<and>
   (\<exists>m'. ErrorRatePerEndpoint_Update NewErrorRatePerEndpoint (request ''log'' 404) = Inr m' \<and>
         er_requests m' ''log'' = er_requests NewErrorRatePerEndpoint ''log'' + 1 \<and>
         er_errors m' ''log'' =
           er_errors NewErrorRatePerEndpoint ''log'' + (if (404::int) \<ge> 400 then 1 else 0) \<and>
         (\<forall>e. e \<noteq> ''log'' \<longrightarrow>
              er_requests m' e = er_requests NewErrorRatePerEndpoint e \<and>
              er_errors m' e = er_errors NewErrorRatePerEndpoint e))"
proof -
  have st: "request ''log'' 404 ''statusCode'' = Some (VInt 404)"
    by (simp add: model_defs)
  have ep: "endpointName (request ''log'' 404) = Inr ''log''"
    by (simp add: model_defs)
  from error_rate_update_counts [OF ErrorRate_New_inv st ep] ErrorRate_New_inv st ep
  show ?thesis by blast
qed

subsection \<open>The overall error rate leaves out endpoints without errors\<close>

text \<open>
  C8.  The aggregate entry is to be all errors over all requests.  ValueMap sums over the
  keys of \<^verbatim>\<open>errorCount\<close>, and Update makes such a key only for a status of 400 or more:
  with one failed request for \<^verbatim>\<open>"a"\<close> and three good ones for \<^verbatim>\<open>"b"\<close> the export has no
  entry for \<^verbatim>\<open>"b"\<close> and an overall rate of \<open>1\<close>, where one error in four requests is \<open>1/4\<close>.
\<close>

theorem error_rate_overall_misses_requests:
  "then_do (ErrorRatePerEndpoint_Update NewErrorRatePerEndpoint (request ''a'' 500)) (\<lambda>m.
   then_do (ErrorRatePerEndpoint_Update m (request ''b'' 200)) (\<lambda>m.
   then_do (ErrorRatePerEndpoint_Update m (request ''b'' 200)) (\<lambda>m.
   then_do (ErrorRatePerEndpoint_Update m (request ''b'' 200)) (\<lambda>m.
     Inr (er_errors m ''a'' + er_errors m ''b'', er_requests m ''a'' + er_requests m ''b'',
          map_of (snd (ErrorRatePerEndpoint_ValueMap m)) (overallName m),
          map_of (snd (ErrorRatePerEndpoint_ValueMap m)) (metricName m ''b''))))))
   = Inr (1, 4, Some 1, None)"
  by (simp add: model_defs)

subsection \<open>Endpoints and the sentinel\<close>

lemma Update_records:
  assumes "metric_inv m" and "has_required m ps" and "endpointName ps = Inr e"
  shows "\<exists>m'. Update m now ps = Inr m' \<and> e \<in> buckets m' \<and>
           live_requests m' e = live_requests m e + 1"
proof (cases m)
  case (Req r)
  with assms show ?thesis
    by (simp add: ReqPerEndpoint_Update_def Req_inv_def store_get_incr store_incr_nth)
next
  case (Err r)
  with assms show ?thesis
    by (auto simp: ErrorRatePerEndpoint_Update_def ErrorRate_inv_def er_requests_def
        store_get_incr store_incr_nth Let_def split: option.splits val.splits)
next
  case (Resp r)
  with assms show ?thesis
    by (auto simp: ResponseTimePerEndpoint_Update_def map_add_to_def Let_def
        split: option.splits val.splits)
qed

text \<open>
  C9.  For every kind of metric: an Update whose bag has no endpoint attribute is counted
  under the sentinel \<^verbatim>\<open>"other"\<close>; an Update that names an endpoint succeeds, is counted
  under that endpoint and leaves a bucket for it, and the count is \<open>1\<close> when the endpoint
  had no bucket before.  The bag carries what the metric's Update asserts: the status code
  for the error rate, the start time for the response time.
\<close>

theorem update_resolves_endpoint:
  assumes "metric_inv m" and "has_required m ps"
  shows "(ps ''endpointName'' = None \<longrightarrow>
           (\<exists>m'. Update m now ps = Inr m' \<and>
                 live_requests m' unknownEndpoint = live_requests m unknownEndpoint + 1)) \<and>
         (\<forall>e. ps ''endpointName'' = Some (VString e) \<longrightarrow>
           (\<exists>m'. Update m now ps = Inr m' \<and> e \<in> buckets m' \<and>
                 live_requests m' e = live_requests m e + 1 \<and>
                 (e \<notin> buckets m \<longrightarrow> live_requests m' e = 1)))"
proof (intro conjI allI impI)
  assume "ps ''endpointName'' = None"
  then have "endpointName ps = Inr unknownEndpoint" by (rule endpointName_None)
  from Update_records [OF assms this, of now]
  show "\<exists>m'. Update m now ps = Inr m' \<and>
          live_requests m' unknownEndpoint = live_requests m unknownEndpoint + 1"
    by blast
next
  fix e
  assume "ps ''endpointName'' = Some (VString e)"
  then have "endpointName ps = Inr e" by (rule endpointName_Some)
  from Update_records [OF assms this, of now]
  obtain m' where m': "Update m now ps = Inr m'" "e \<in> buckets m'"
    "live_requests m' e = live_requests m e + 1" by blast
  have "e \<notin> buckets m \<Longrightarrow> live_requests m e = 0"
    by (cases m) (simp_all add: store_get_def er_requests_def map_get_absent)
  with m' show "\<exists>m'. Update m now ps = Inr m' \<and> e \<in> buckets m' \<and>
           live_requests m' e = live_requests m e + 1 \<and>
           (e \<notin> buckets m \<longrightarrow> live_requests m' e = 1)"
    by auto
qed

theorem update_resolves_endpoint_witness:
  "metric_inv (Resp NewResponseTimePerEndpoint) \<and>
   has_required (Resp NewResponseTimePerEndpoint) [''reqStartTime'' \<mapsto> VTime 0] \<and>
   [''reqStartTime'' \<mapsto> VTime 0] ''endpointName'' = None \<and>
   (\<exists>m'. Update (Resp NewResponseTimePerEndpoint) 5 [''reqStartTime'' \<mapsto> VTime 0] = Inr m' \<and>
         live_requests m' unknownEndpoint =
           live_requests (Resp NewResponseTimePerEndpoint) unknownEndpoint + 1) \<and>
   has_required (Resp NewResponseTimePerEndpoint) (DefaultReqParams 0 ''log'') \<and>
   DefaultReqParams 0 ''log'' ''endpointName'' = Some (VString ''log'') \<and>
   ''log'' \<notin> buckets (Resp NewResponseTimePerEndpoint) \<and>
   (\<exists>m'. Update (Resp NewResponseTimePerEndpoint) 5 (DefaultReqParams 0 ''log'') = Inr m' \<and>
         ''log'' \<in> buckets m' \<and> live_requests m' ''log'' = 1)"
proof -
  let ?m = "Resp NewResponseTimePerEndpoint"
  have inv: "metric_inv ?m" by (rule metric_inv_New)
  have r1: "has_required ?m [''reqStartTime'' \<mapsto> VTime 0]" by simp
  have n1: "[''reqStartTime'' \<mapsto> VTime 0] ''endpointName'' = None" by simp
  have r2: "has_required ?m (DefaultReqParams 0 ''log'')" by (simp add: model_defs)
  have n2: "DefaultReqParams 0 ''log'' ''endpointName'' = Some (VString ''log'')"
    by (simp add: model_defs)
  have fresh: "''log'' \<notin> buckets ?m" by (simp add: model_defs)
  from update_resolves_endpoint [OF inv r1, of 5] n1
  have a: "\<exists>m'. Update ?m 5 [''reqStartTime'' \<mapsto> VTime 0] = Inr m' \<and>
         live_requests m' unknownEndpoint = live_requests ?m unknownEndpoint + 1"
    by blast
  from update_resolves_endpoint [OF inv r2, of 5] n2 fresh
  have b: "\<exists>m'. Update ?m 5 (DefaultReqParams 0 ''log'') = Inr m' \<and>
         ''log'' \<in> buckets m' \<and> live_requests m' ''log'' = 1"
    by blast
  from inv r1 n1 a r2 n2 fresh b show ?thesis by blast
qed

subsection \<open>What an export always contains\<close>

text \<open>
  The claim C10 as stated fails: \<^verbatim>\<open>doSnapshot\<close> of the request-count metric replaces the
  live map by an empty one, without the key \<^verbatim>\<open>"other"\<close> the constructor had put in.  Once
  the first snapshot is cleared, the export has no entry for \<^verbatim>\<open>"other"\<close>.
\<close>

theorem request_count_export_loses_other:
  "map_of (snd (ValueMap (Clear (fst (ValueMap (Req NewReqPerEndpoint)))))) =
     [overall_entry (Req NewReqPerEndpoint) \<mapsto> 0] \<and>
   map_of (snd (ValueMap (Clear (fst (ValueMap (Req NewReqPerEndpoint))))))
     (other_entry (Req NewReqPerEndpoint)) = None"
  by (simp add: model_defs)

text \<open>
  C10 (amended).  In every state of every kind of metric the export contains the aggregate
  entry, so it is never empty.  It contains the entry of \<^verbatim>\<open>"other"\<close> in every state of the
  error-rate and of the response-time metric, and for the request-count metric whenever
  the live map or a retained snapshot has the key \<^verbatim>\<open>"other"\<close>.  The export of a freshly
  constructed metric consists of these two entries, both \<open>0\<close>.
\<close>

theorem export_has_overall_and_other:
  assumes "metric_inv m"
  shows "overall_entry m \<in> set (map_keys (snd (ValueMap m))) \<and>
         (keeps_other m \<longrightarrow> other_entry m \<in> set (map_keys (snd (ValueMap m)))) \<and>
         map_of (snd (ValueMap (Req NewReqPerEndpoint))) =
           [overall_entry (Req NewReqPerEndpoint) \<mapsto> 0,
            other_entry (Req NewReqPerEndpoint) \<mapsto> 0] \<and>
         map_of (snd (ValueMap (Err NewErrorRatePerEndpoint))) =
           [overall_entry (Err NewErrorRatePerEndpoint) \<mapsto> 0,
            other_entry (Err NewErrorRatePerEndpoint) \<mapsto> 0] \<and>
         map_of (snd (ValueMap (Resp NewResponseTimePerEndpoint))) =
           [overall_entry (Resp NewResponseTimePerEndpoint) \<mapsto> 0,
            other_entry (Resp NewResponseTimePerEndpoint) \<mapsto> 0]"
proof (intro conjI impI)
  show "overall_entry m \<in> set (map_keys (snd (ValueMap m)))"
    by (cases m)
       (simp_all add: Req_export_has_overall ErrorRate_export_keys Let_def Resp_export_keys)
  show "other_entry m \<in> set (map_keys (snd (ValueMap m)))" if "keeps_other m"
  proof (cases m)
    case (Req r)
    with assms that Req_export_has_other [of r] show ?thesis by simp
  next
    case (Err r)
    with assms ErrorRate_export_has_other [of r] show ?thesis by simp
  next
    case (Resp r)
    with assms show ?thesis by (simp add: Resp_export_keys ResponseTime_inv_def)
  qed
qed (simp_all add: model_defs)

theorem export_has_overall_and_other_witness:
  "metric_inv (fst (ValueMap (Req NewReqPerEndpoint))) \<and>
   keeps_other (fst (ValueMap (Req NewReqPerEndpoint))) \<and>
   overall_entry (fst (ValueMap (Req NewReqPerEndpoint)))
     \<in> set (map_keys (snd (ValueMap (fst (ValueMap (Req NewReqPerEndpoint)))))) \<and>
   other_entry (fst (ValueMap (Req NewReqPerEndpoint)))
     \<in> set (map_keys (snd (ValueMap (fst (ValueMap (Req NewReqPerEndpoint))))))"
proof -
  have inv: "metric_inv (fst (ValueMap (Req NewReqPerEndpoint)))"
    by (intro metric_inv_ValueMap metric_inv_New)
  have keeps: "keeps_other (fst (ValueMap (Req NewReqPerEndpoint)))"
    by (simp add: ValueMap_Req Req_ValueMap_entries [OF Req_New_inv] del: ValueMap.simps)
       (simp add: model_defs rq_entries_def rq_retained_def)
  from export_has_overall_and_other [OF inv] keeps inv show ?thesis
    by blast
qed

end
